theory Spec2Isabelle
  imports Main "HOL-Library.AList"
begin

section \<open>The operating system and the libraries, as the program sees them\<close>

text \<open>
  Exceptions that the program can meet. \<open>CalledProcessError\<close> is what
  \<^verbatim>\<open>subprocess.check_output\<close> raises on a nonzero exit status, \<open>CsvError\<close> is
  \<^verbatim>\<open>csv.Error\<close>, \<open>MailError\<close> stands for whatever \<^verbatim>\<open>smtplib\<close> raises.
\<close>

datatype exn = IOError | OSError | KeyError | IndexError | StopIteration | CsvError
  | CalledProcessError | MailError

text \<open>
  What \<^verbatim>\<open>print\<close> writes for the class object \<^verbatim>\<open>sys.exc_info()[0]\<close> of an exception.
\<close>

fun exc_class_str :: "exn \<Rightarrow> string" where
  "exc_class_str IOError = ''<type 'exceptions.IOError'>''"
| "exc_class_str OSError = ''<type 'exceptions.OSError'>''"
| "exc_class_str KeyError = ''<type 'exceptions.KeyError'>''"
| "exc_class_str IndexError = ''<type 'exceptions.IndexError'>''"
| "exc_class_str StopIteration = ''<type 'exceptions.StopIteration'>''"
| "exc_class_str CsvError = ''<class '_csv.Error'>''"
| "exc_class_str CalledProcessError = ''<class 'subprocess.CalledProcessError'>''"
| "exc_class_str MailError = ''<class 'smtplib.SMTPException'>''"

text \<open>
  How a stage of the run stops early: \<^verbatim>\<open>sys.exit()\<close> raises SystemExit carrying the
  optional status argument; any other exception that nothing catches ends the process
  with a traceback. The interpreter's exit status is 0 for a normal end and for
  \<^verbatim>\<open>sys.exit()\<close> without argument, the argument for \<^verbatim>\<open>sys.exit(n)\<close>, and 1 for an
  uncaught exception.
\<close>

datatype stop = SystemExit "nat option" | Uncaught exn

fun exit_status :: "stop option \<Rightarrow> nat" where
  "exit_status None = 0"
| "exit_status (Some (SystemExit None)) = 0"
| "exit_status (Some (SystemExit (Some n))) = n"
| "exit_status (Some (Uncaught e)) = 1"

subsection \<open>Strings and paths\<close>

definition endswith :: "string \<Rightarrow> string \<Rightarrow> bool" where
  "endswith s suf \<longleftrightarrow> length suf \<le> length s \<and> drop (length s - length suf) s = suf"

definition startswith :: "string \<Rightarrow> string \<Rightarrow> bool" where
  "startswith s pre \<longleftrightarrow> take (length pre) s = pre"

definition isspace :: "char \<Rightarrow> bool" where
  "isspace c \<longleftrightarrow> c \<in> set [CHR '' '', CHR 0x09, CHR 0x0A, CHR 0x0B, CHR 0x0C, CHR 0x0D]"

definition rstrip :: "string \<Rightarrow> string" where
  "rstrip s = rev (dropWhile isspace (rev s))"

text \<open>\<^verbatim>\<open>os.path.join(a, b)\<close> of posixpath, for two arguments.\<close>

definition path_join :: "string \<Rightarrow> string \<Rightarrow> string" where
  "path_join a b =
     (if startswith b ''/'' then b
      else if a = [] \<or> endswith a ''/'' then a @ b
      else a @ ''/'' @ b)"

subsection \<open>The file system\<close>

text \<open>
  A file system is an association list from path strings to nodes; its order stands for
  the (arbitrary but fixed) order in which \<^verbatim>\<open>os.listdir\<close> reports entries. A regular
  file holds its lines, each without its line terminator. Every file is known under the
  one path string the program builds for it. Whether the process may unlink a path is
  not part of the nodes: it is a fact of the environment, passed to \<^verbatim>\<open>os.remove\<close>.
\<close>

datatype node = RegFile "string list" | Directory

type_synonym filesystem = "(string \<times> node) list"

definition child_name :: "string \<Rightarrow> string \<Rightarrow> string option" where
  "child_name d p =
     (let pre = path_join d [];
          name = drop (length pre) p
      in if startswith p pre \<and> name \<noteq> [] \<and> CHR ''/'' \<notin> set name then Some name else None)"

definition listdir :: "string \<Rightarrow> filesystem \<Rightarrow> string list" where
  "listdir d fsys = List.map_filter (child_name d) (map fst fsys)"

definition exists_path :: "filesystem \<Rightarrow> string \<Rightarrow> bool" where
  "exists_path fsys p \<longleftrightarrow> map_of fsys p \<noteq> None"

text \<open>
  \<^verbatim>\<open>os.remove\<close> raises OSError for a missing path, for a directory, and for a file
  the process is not permitted to unlink.
\<close>

definition os_remove :: "(string \<Rightarrow> bool) \<Rightarrow> string \<Rightarrow> filesystem \<Rightarrow> exn + filesystem" where
  "os_remove may_unlink p fsys =
     (case map_of fsys p of
        Some (RegFile c) \<Rightarrow> if may_unlink p then Inr (AList.delete p fsys) else Inl OSError
      | _ \<Rightarrow> Inl OSError)"

definition open_read :: "filesystem \<Rightarrow> string \<Rightarrow> exn + string list" where
  "open_read fsys p =
     (case map_of fsys p of
        Some (RegFile c) \<Rightarrow> Inr c
      | _ \<Rightarrow> Inl IOError)"

text \<open>
  Opening for writing creates or truncates the file and fails on a directory; the parent
  directory is taken to exist and to be writable.
\<close>

definition open_write :: "filesystem \<Rightarrow> string \<Rightarrow> exn + filesystem" where
  "open_write fsys p =
     (case map_of fsys p of
        Some Directory \<Rightarrow> Inl IOError
      | _ \<Rightarrow> Inr (AList.update p (RegFile []) fsys))"

subsection \<open>The csv module\<close>

text \<open>
  \<^verbatim>\<open>csv.reader\<close> is library code: the model takes it as a parameter that turns the
  lines it is given into the sequence of results of successive \<^verbatim>\<open>next()\<close> calls, each
  a row (\<open>Inr\<close>) or a raised exception (\<open>Inl\<close>); after the last element the reader raises
  StopIteration. \<^verbatim>\<open>csv.DictReader\<close> is modelled on top of it: the first row gives the
  field names, blank rows are skipped, a short row has its missing fields set to
  \<^verbatim>\<open>None\<close> (restval), the surplus of a long row goes, as a list, under the key
  \<^verbatim>\<open>None\<close> (restkey). A row dictionary is therefore its string-keyed part, whose
  values are strings or \<^verbatim>\<open>None\<close>, together with the optional surplus.
\<close>

type_synonym csv_stream = "(exn + string list) list"

type_synonym rowdict = "(string \<times> string option) list \<times> string list option"

definition dictreader_row :: "string list \<Rightarrow> string list \<Rightarrow> rowdict" where
  "dictreader_row fieldnames row =
     (let d = foldl (\<lambda>d (k, v). AList.update k (Some v) d) [] (zip fieldnames row);
          lf = length fieldnames;
          lr = length row
      in if lf < lr then (d, Some (drop lf row))
         else if lf > lr then (foldl (\<lambda>d key. AList.update key None d) d (drop lr fieldnames), None)
         else (d, None))"

fun dictreader_rows :: "string list \<Rightarrow> csv_stream \<Rightarrow> (exn + rowdict) list" where
  "dictreader_rows fieldnames [] = []"
| "dictreader_rows fieldnames (Inl e # rest) = [Inl e]"
| "dictreader_rows fieldnames (Inr row # rest) =
     (if row = [] then dictreader_rows fieldnames rest
      else Inr (dictreader_row fieldnames row) # dictreader_rows fieldnames rest)"

definition DictReader :: "csv_stream \<Rightarrow> (exn + rowdict) list" where
  "DictReader stream =
     (case stream of
        [] \<Rightarrow> []
      | Inl e # rest \<Rightarrow> [Inl e]
      | Inr fieldnames # rest \<Rightarrow> dictreader_rows fieldnames rest)"

definition dict_len :: "rowdict \<Rightarrow> nat" where
  "dict_len d = length (fst d) + (case snd d of None \<Rightarrow> 0 | Some extra \<Rightarrow> 1)"

definition dict_get :: "rowdict \<Rightarrow> string \<Rightarrow> exn + string option" where
  "dict_get d k = (case map_of (fst d) k of None \<Rightarrow> Inl KeyError | Some v \<Rightarrow> Inr v)"

subsection \<open>External programs and the environment\<close>

text \<open>
  What running urlcrazy can do: \<^verbatim>\<open>subprocess.call\<close> raises because the program cannot
  be executed, or the program runs and either writes its \<^verbatim>\<open>-o\<close> file or not (the exit
  status is ignored by the caller). What running dnstwist can do:
  \<^verbatim>\<open>subprocess.check_output\<close> raises OSError because the program cannot be executed,
  raises CalledProcessError because it exits with a nonzero status, or returns what the
  program printed.
\<close>

datatype uc_result = UcCannotRun | UcRan "string list option"

datatype dt_result = DtCannotRun | DtFailed | DtPrinted "string list"

record env =
  csv_reader :: "string list \<Rightarrow> csv_stream"
  csv_writerow :: "string option list \<Rightarrow> string"
  urlcrazy_tool :: "string list \<Rightarrow> uc_result"
  dnstwist_tool :: "string list \<Rightarrow> dt_result"
  access_x_ok :: "string \<Rightarrow> bool"
  tempfile_ok :: "string \<Rightarrow> bool"
  unlink_ok :: "string \<Rightarrow> bool"
  smtp_ok :: bool

text \<open>
  The state the program changes: the file system, the global list \<^verbatim>\<open>tempFiles\<close>, what
  has been printed, the argument vectors of the subprocesses started, and the mails sent.
\<close>

record state =
  fs :: filesystem
  tempFiles :: "string list"
  printed :: "string list"
  invoked :: "string list list"
  mailed :: "string list"

text \<open>
  The parsed command line; \<open>outfile\<close> is the value of \<^verbatim>\<open>--output\<close> (\<^verbatim>\<open>args.output\<close>).
\<close>

record args =
  config :: string
  outfile :: string
  directory :: string
  email :: bool
  dnstwist :: bool
  urlcrazy :: bool

definition urlcrazyPath :: string where
  "urlcrazyPath = ''/usr/bin/urlcrazy''"

definition dnstwistPath :: string where
  "dnstwistPath = ''/opt/dnstwist/dnstwist.py''"

definition say :: "string \<Rightarrow> state \<Rightarrow> state" where
  "say line s = s\<lparr>printed := printed s @ [line]\<rparr>"

section \<open>crazyParser.py: the deduplicator\<close>

text \<open>
  \<^verbatim>\<open>
  def dedup(domainslist, idfun=None):
      if idfun is None:
          def idfun(x): return x
      seen = {}
      result = []
      for item in domainslist:
          marker = idfun(item)
          if marker in seen: continue
          seen[marker] = 1
          result.append(item)
      return result
  \<close>
  The dictionary \<open>seen\<close> is a map from markers to the stored value 1; the loop is a
  recursion over the remaining items carrying \<open>seen\<close> and \<open>result\<close>.
\<close>

fun dedup_loop :: "('a \<Rightarrow> 'b) \<Rightarrow> 'a list \<Rightarrow> ('b \<rightharpoonup> nat) \<Rightarrow> 'a list \<Rightarrow> 'a list" where
  "dedup_loop idfun [] seen result = result"
| "dedup_loop idfun (item # rest) seen result =
     (let marker = idfun item in
      if seen marker \<noteq> None then dedup_loop idfun rest seen result
      else dedup_loop idfun rest (seen(marker \<mapsto> 1)) (result @ [item]))"

definition dedup :: "'a list \<Rightarrow> ('a \<Rightarrow> 'a) option \<Rightarrow> 'a list" where
  "dedup domainslist idfun_arg =
     (let idfun = (case idfun_arg of None \<Rightarrow> (\<lambda>x. x) | Some f \<Rightarrow> f)
      in dedup_loop idfun domainslist Map.empty [])"

text \<open>
  The specification's wording, for comparison with the code: the positions that survive
  are those holding the first occurrence of their value.
\<close>

definition first_occurrences :: "'a list \<Rightarrow> 'a list" where
  "first_occurrences xs =
     map (\<lambda>i. xs ! i) (filter (\<lambda>i. xs ! i \<notin> set (take i xs)) [0..<length xs])"

section \<open>crazyParser.py: checks before the run\<close>

text \<open>
  Each stage returns how it stopped (\<open>None\<close>: it returned normally) and the state it
  left behind. \<^verbatim>\<open>checkPerms\<close> and \<^verbatim>\<open>checkDepends\<close> print two lines and call
  \<^verbatim>\<open>sys.exit()\<close> without an argument.
\<close>

definition checkPerms :: "env \<Rightarrow> string \<Rightarrow> string \<Rightarrow> state \<Rightarrow> stop option \<times> state" where
  "checkPerms E docRoot resultsFile s =
     (if \<not> access_x_ok E docRoot then
        (Some (SystemExit None),
         say ''Please check permissions.  Exiting...''
           (say (''Destination directory '' @ docRoot @ '' not accessible.'') s))
      else if \<not> tempfile_ok E docRoot then
        (Some (SystemExit None),
         say ''Please check permissions.  Exiting...''
           (say (''Unable to write to desired directory: '' @ docRoot @ ''.'') s))
      else (None, s))"

definition checkDepends ::
  "string \<Rightarrow> string \<Rightarrow> bool \<Rightarrow> bool \<Rightarrow> state \<Rightarrow> stop option \<times> state" where
  "checkDepends myDomains knownDomains urlcrazy_on dnstwist_on s =
     (if \<not> exists_path (fs s) myDomains \<or> \<not> exists_path (fs s) knownDomains then
        (Some (SystemExit None),
         say ''Please verify configuration.''
           (say ''Required configuration files - mydomains.csv or knowndomains.csv - not found.'' s))
      else if urlcrazy_on \<and> \<not> exists_path (fs s) urlcrazyPath then
        (Some (SystemExit None),
         say ''Please check urlcrazyPath in crazyParser.py.  Exiting...''
           (say (''URLCrazy specified as '' @ urlcrazyPath @ '' but was not found.'') s))
      else if dnstwist_on \<and> \<not> exists_path (fs s) dnstwistPath then
        (Some (SystemExit None),
         say ''Please check urlcrazyPath in crazyParser.py.  Exiting...''
           (say (''DNStwist specified as '' @ dnstwistPath @ ''but was not found.'') s))
      else (None, s))"

section \<open>crazyParser.py: running the generators\<close>

text \<open>
  urlcrazy: the call is made inside \<^verbatim>\<open>try\<close>; when it returns, the output path is
  appended to \<^verbatim>\<open>tempFiles\<close> whatever the program did; when it raises, the handler
  prints and goes on. The program's own write to its output file takes effect unless
  the path is a directory.
\<close>

definition run_urlcrazy :: "env \<Rightarrow> string \<Rightarrow> string \<Rightarrow> state \<Rightarrow> state" where
  "run_urlcrazy E ucoutfile domain s =
     (let ucargs = [urlcrazyPath, ''-f'', ''csv'', ''-o'', ucoutfile, domain];
          s1 = s\<lparr>invoked := invoked s @ [ucargs]\<rparr>
      in case urlcrazy_tool E ucargs of
           UcCannotRun \<Rightarrow> say (''Unexpected error running urlcrazy: '' @ exc_class_str OSError) s1
         | UcRan written \<Rightarrow>
             (let fs1 = (case written of
                           None \<Rightarrow> fs s1
                         | Some ls \<Rightarrow>
                             if map_of (fs s1) ucoutfile = Some Directory then fs s1
                             else AList.update ucoutfile (RegFile ls) (fs s1))
              in s1\<lparr>fs := fs1, tempFiles := tempFiles s1 @ [ucoutfile]\<rparr>))"

text \<open>
  dnstwist: the output file is opened for writing first, then the program is run; only
  when it returns is its output written and, after the \<^verbatim>\<open>with\<close> block, the path
  appended to \<^verbatim>\<open>tempFiles\<close>. An exception anywhere in the block is printed.
\<close>

definition run_dnstwist :: "env \<Rightarrow> string \<Rightarrow> string \<Rightarrow> state \<Rightarrow> state" where
  "run_dnstwist E dtoutfile domain s =
     (let dtargs = [dnstwistPath, ''-r'', ''-c'', domain]
      in case open_write (fs s) dtoutfile of
           Inl e \<Rightarrow> say (''Unexpected error running dnstwist: '' @ exc_class_str e) s
         | Inr fs1 \<Rightarrow>
             (let s1 = s\<lparr>fs := fs1, invoked := invoked s @ [dtargs]\<rparr>
              in case dnstwist_tool E dtargs of
                   DtCannotRun \<Rightarrow>
                     say (''Unexpected error running dnstwist: '' @ exc_class_str OSError) s1
                 | DtFailed \<Rightarrow>
                     say (''Unexpected error running dnstwist: '' @ exc_class_str CalledProcessError) s1
                 | DtPrinted out \<Rightarrow>
                     s1\<lparr>fs := AList.update dtoutfile (RegFile out) (fs s1),
                        tempFiles := tempFiles s1 @ [dtoutfile]\<rparr>))"

fun doCrazy_loop :: "env \<Rightarrow> string \<Rightarrow> bool \<Rightarrow> bool \<Rightarrow> string list \<Rightarrow> state \<Rightarrow> state" where
  "doCrazy_loop E docRoot urlcrazy_on dnstwist_on [] s = s"
| "doCrazy_loop E docRoot urlcrazy_on dnstwist_on (line # rest) s =
     (let ucoutfile = path_join docRoot (rstrip line @ ''.uctmp'');
          dtoutfile = path_join docRoot (rstrip line @ ''.dttmp'');
          domain = rstrip line;
          s1 = (if urlcrazy_on then run_urlcrazy E ucoutfile domain s else s);
          s2 = (if dnstwist_on then run_dnstwist E dtoutfile domain s1 else s1)
      in doCrazy_loop E docRoot urlcrazy_on dnstwist_on rest s2)"

definition doCrazy ::
  "env \<Rightarrow> string \<Rightarrow> string \<Rightarrow> string \<Rightarrow> bool \<Rightarrow> bool \<Rightarrow> state \<Rightarrow> exn option \<times> state" where
  "doCrazy E docRoot resultsFile myDomains urlcrazy_on dnstwist_on s =
     (let s1 = (case os_remove (unlink_ok E) resultsFile (fs s) of
                  Inr fs1 \<Rightarrow> s\<lparr>fs := fs1\<rparr>
                | Inl e \<Rightarrow> s)
      in case open_read (fs s1) myDomains of
           Inl e \<Rightarrow> (Some e, s1)
         | Inr domains \<Rightarrow> (None, doCrazy_loop E docRoot urlcrazy_on dnstwist_on domains s1))"

section \<open>crazyParser.py: parsing, differencing and writing\<close>

fun load_known :: "(exn + rowdict) list \<Rightarrow> string option list \<Rightarrow> exn + string option list" where
  "load_known [] knowndom = Inr knowndom"
| "load_known (Inl e # rest) knowndom = Inl e"
| "load_known (Inr row # rest) knowndom =
     (case dict_get row ''Domain'' of
        Inl e \<Rightarrow> Inl e
      | Inr v \<Rightarrow> load_known rest (knowndom @ [v]))"

definition read_known :: "env \<Rightarrow> filesystem \<Rightarrow> string \<Rightarrow> exn + string option list" where
  "read_known E fsys knownDomains =
     (case open_read fsys knownDomains of
        Inl e \<Rightarrow> Inl e
      | Inr domfile \<Rightarrow> load_known (DictReader (csv_reader E domfile)) [])"

text \<open>The rows of one urlcrazy file; \<open>domains\<close> is the list built so far.\<close>

fun parse_uc_rows ::
  "string option list \<Rightarrow> (exn + rowdict) list \<Rightarrow> string option list \<Rightarrow> exn + string option list" where
  "parse_uc_rows knowndom [] domains = Inr domains"
| "parse_uc_rows knowndom (Inl e # rest) domains = Inl e"
| "parse_uc_rows knowndom (Inr row # rest) domains =
     (if dict_len row \<noteq> 0 then
        (case dict_get row ''CC-A'' of
           Inl e \<Rightarrow> Inl e
         | Inr cc \<Rightarrow>
             if cc \<noteq> Some ''?'' then
               (case dict_get row ''Typo'' of
                  Inl e \<Rightarrow> Inl e
                | Inr typo \<Rightarrow>
                    if typo \<in> set knowndom then parse_uc_rows knowndom rest domains
                    else parse_uc_rows knowndom rest (domains @ [typo]))
             else parse_uc_rows knowndom rest domains)
      else parse_uc_rows knowndom rest domains)"

definition parse_uc_file ::
  "env \<Rightarrow> filesystem \<Rightarrow> string option list \<Rightarrow> string \<Rightarrow> string option list \<Rightarrow> exn + string option list" where
  "parse_uc_file E fsys knowndom file domains =
     (case open_read fsys file of
        Inl e \<Rightarrow> Inl e
      | Inr csvfile \<Rightarrow>
          parse_uc_rows knowndom
            (DictReader (csv_reader E (map (filter (\<lambda>c. c \<noteq> CHR 0x00)) csvfile))) domains)"

text \<open>The rows of one dnstwist file, after its two leading lines.\<close>

fun parse_dt_rows ::
  "string option list \<Rightarrow> csv_stream \<Rightarrow> string option list \<Rightarrow> exn + string option list" where
  "parse_dt_rows knowndom [] domains = Inr domains"
| "parse_dt_rows knowndom (Inl e # rest) domains = Inl e"
| "parse_dt_rows knowndom (Inr row # rest) domains =
     (if length row \<le> 1 then Inl IndexError
      else if Some (row ! 1) \<in> set knowndom then parse_dt_rows knowndom rest domains
      else parse_dt_rows knowndom rest (domains @ [Some (row ! 1)]))"

text \<open>\<^verbatim>\<open>next(reader)\<close>: the first result of the stream, StopIteration when it is empty.\<close>

definition reader_next :: "csv_stream \<Rightarrow> exn + (string list \<times> csv_stream)" where
  "reader_next stream =
     (case stream of
        [] \<Rightarrow> Inl StopIteration
      | Inl e # rest \<Rightarrow> Inl e
      | Inr row # rest \<Rightarrow> Inr (row, rest))"

definition parse_dt_file ::
  "env \<Rightarrow> filesystem \<Rightarrow> string option list \<Rightarrow> string \<Rightarrow> string option list \<Rightarrow> exn + string option list" where
  "parse_dt_file E fsys knowndom file domains =
     (case open_read fsys file of
        Inl e \<Rightarrow> Inl e
      | Inr csvfile \<Rightarrow>
          (case reader_next (csv_reader E csvfile) of
             Inl e \<Rightarrow> Inl e
           | Inr (header, stream1) \<Rightarrow>
               (case reader_next stream1 of
                  Inl e \<Rightarrow> Inl e
                | Inr (original, stream2) \<Rightarrow> parse_dt_rows knowndom stream2 domains)))"

text \<open>The loop over the files of one generator, threading \<open>domains\<close>.\<close>

fun parse_files ::
  "(string \<Rightarrow> string option list \<Rightarrow> exn + string option list) \<Rightarrow> string list \<Rightarrow>
   string option list \<Rightarrow> exn + string option list" where
  "parse_files parse_one [] domains = Inr domains"
| "parse_files parse_one (file # rest) domains =
     (case parse_one file domains of
        Inl e \<Rightarrow> Inl e
      | Inr domains1 \<Rightarrow> parse_files parse_one rest domains1)"

definition tmp_files :: "string \<Rightarrow> filesystem \<Rightarrow> string \<Rightarrow> string list" where
  "tmp_files docRoot fsys ext =
     map (path_join docRoot) (filter (\<lambda>f. endswith f ext) (listdir docRoot fsys))"

definition collect_domains ::
  "env \<Rightarrow> filesystem \<Rightarrow> string \<Rightarrow> string option list \<Rightarrow> bool \<Rightarrow> bool \<Rightarrow> exn + string option list" where
  "collect_domains E fsys docRoot knowndom urlcrazy_on dnstwist_on =
     (case (if urlcrazy_on
            then parse_files (parse_uc_file E fsys knowndom) (tmp_files docRoot fsys ''.uctmp'') []
            else Inr []) of
        Inl e \<Rightarrow> Inl e
      | Inr domains1 \<Rightarrow>
          if dnstwist_on
          then parse_files (parse_dt_file E fsys knowndom) (tmp_files docRoot fsys ''.dttmp'') domains1
          else Inr domains1)"

text \<open>
  The writer: \<^verbatim>\<open>writeheader()\<close> writes the row of the field names, then one row per
  domain; each element of the written file is the text \<^verbatim>\<open>csv.writer\<close> produces for
  one row.
\<close>

definition result_rows :: "string option list \<Rightarrow> string option list list" where
  "result_rows domains = [Some ''Domain''] # map (\<lambda>row. [row]) domains"

definition write_results :: "env \<Rightarrow> string \<Rightarrow> string option list \<Rightarrow> filesystem \<Rightarrow> exn + filesystem" where
  "write_results E resultsFile domains fsys =
     (case open_write fsys resultsFile of
        Inl e \<Rightarrow> Inl e
      | Inr fs1 \<Rightarrow>
          Inr (AList.update resultsFile (RegFile (map (csv_writerow E) (result_rows domains))) fs1))"

definition parseOutput ::
  "env \<Rightarrow> string \<Rightarrow> string \<Rightarrow> string \<Rightarrow> bool \<Rightarrow> bool \<Rightarrow> state \<Rightarrow> exn option \<times> state" where
  "parseOutput E docRoot knownDomains resultsFile urlcrazy_on dnstwist_on s =
     (case read_known E (fs s) knownDomains of
        Inl e \<Rightarrow> (Some e, s)
      | Inr knowndom \<Rightarrow>
          (case collect_domains E (fs s) docRoot knowndom urlcrazy_on dnstwist_on of
             Inl e \<Rightarrow> (Some e, s)
           | Inr domains \<Rightarrow>
               (case write_results E resultsFile (dedup domains None) (fs s) of
                  Inl e \<Rightarrow> (Some e, s)
                | Inr fs1 \<Rightarrow> (None, s\<lparr>fs := fs1\<rparr>))))"

section \<open>crazyParser.py: mail, cleanup and the main program\<close>

text \<open>
  \<^verbatim>\<open>sendMail\<close> counts the lines of the results file and picks the message; the SMTP
  conversation either works or raises.
\<close>

definition sendMail :: "env \<Rightarrow> string \<Rightarrow> state \<Rightarrow> exn option \<times> state" where
  "sendMail E resultsFile s =
     (case open_read (fs s) resultsFile of
        Inl e \<Rightarrow> (Some e, s)
      | Inr ls \<Rightarrow>
          (let numResults = length ls;
               text = (if numResults = 1 then ''There were no new results in today's scan''
                       else ''The results from today's DNS typosquatting scan are attached'')
           in if smtp_ok E then (None, s\<lparr>mailed := mailed s @ [text]\<rparr>)
              else (Some MailError, s)))"

text \<open>
  \<^verbatim>\<open>doCleanup\<close> collects the paths of the directory's temporary files in
  \<^verbatim>\<open>filedict\<close> and then iterates over the global \<^verbatim>\<open>tempFiles\<close>.
\<close>

fun remove_each :: "env \<Rightarrow> string list \<Rightarrow> state \<Rightarrow> state" where
  "remove_each E [] s = s"
| "remove_each E (f # rest) s =
     (case os_remove (unlink_ok E) f (fs s) of
        Inr fs1 \<Rightarrow> remove_each E rest (s\<lparr>fs := fs1\<rparr>)
      | Inl e \<Rightarrow> remove_each E rest (say (''Error removing temporary file: '' @ f) s))"

definition doCleanup :: "env \<Rightarrow> string \<Rightarrow> state \<Rightarrow> state" where
  "doCleanup E docRoot s =
     (let filedict = map (path_join docRoot)
                       (filter (\<lambda>f. endswith f ''.uctmp'' \<or> endswith f ''.dttmp'')
                          (listdir docRoot (fs s)))
      in remove_each E (tempFiles s) s)"

text \<open>
  The main program from the point where the arguments are parsed and the two directories
  are settled. Everything after \<^verbatim>\<open>atexit.register(doCleanup, docRoot)\<close> is followed by
  the exit-time call of \<^verbatim>\<open>doCleanup\<close>, however it ends.
\<close>

definition run_stages ::
  "env \<Rightarrow> args \<Rightarrow> string \<Rightarrow> string \<Rightarrow> string \<Rightarrow> string \<Rightarrow> state \<Rightarrow> stop option \<times> state" where
  "run_stages E a docRoot resultsFile myDomains knownDomains s =
     (case doCrazy E docRoot resultsFile myDomains (urlcrazy a) (dnstwist a) s of
        (Some e, s1) \<Rightarrow> (Some (Uncaught e), s1)
      | (None, s1) \<Rightarrow>
          (case parseOutput E docRoot knownDomains resultsFile (urlcrazy a) (dnstwist a) s1 of
             (Some e, s2) \<Rightarrow> (Some (Uncaught e), s2)
           | (None, s2) \<Rightarrow>
               if email a then
                 (case sendMail E resultsFile s2 of
                    (Some e, s3) \<Rightarrow> (Some (Uncaught e), s3)
                  | (None, s3) \<Rightarrow> (None, s3))
               else (None, s2)))"

definition main :: "env \<Rightarrow> args \<Rightarrow> state \<Rightarrow> stop option \<times> state" where
  "main E a s =
     (let configDir = config a;
          docRoot = directory a;
          resultsFile = path_join docRoot (outfile a);
          myDomains = path_join configDir ''mydomains.csv'';
          knownDomains = path_join configDir ''knowndomains.csv''
      in case checkPerms E docRoot resultsFile s of
           (Some t, s1) \<Rightarrow> (Some t, s1)
         | (None, s1) \<Rightarrow>
             (case checkDepends myDomains knownDomains (urlcrazy a) (dnstwist a) s1 of
                (Some t, s2) \<Rightarrow> (Some t, s2)
              | (None, s2) \<Rightarrow>
                  (let s3 = doCleanup E docRoot s2;
                       (t, s4) = run_stages E a docRoot resultsFile myDomains knownDomains s3
                   in (t, doCleanup E docRoot s4))))"

section \<open>Concrete inputs\<close>

text \<open>
  A reader and a writer for plain lines: on lines without quote characters and carriage
  returns \<^verbatim>\<open>csv.reader\<close> splits at the commas, gives the empty row for an empty line
  and raises \<^verbatim>\<open>csv.Error\<close> on a NUL byte; on non-empty fields without special characters
  \<^verbatim>\<open>csv.writer\<close> joins the fields with commas.
\<close>

fun split_field :: "string \<Rightarrow> string \<Rightarrow> string list" where
  "split_field field [] = [rev field]"
| "split_field field (c # cs) =
     (if c = CHR '','' then rev field # split_field [] cs
      else split_field (c # field) cs)"

definition split_commas :: "string \<Rightarrow> string list" where
  "split_commas line = split_field [] line"

definition plain_row :: "string \<Rightarrow> exn + string list" where
  "plain_row line =
     (if CHR 0x00 \<in> set line then Inl CsvError
      else if line = [] then Inr []
      else Inr (split_commas line))"

definition plain_reader :: "string list \<Rightarrow> csv_stream" where
  "plain_reader ls = map plain_row ls"

fun join_commas :: "string list \<Rightarrow> string" where
  "join_commas [] = []"
| "join_commas [x] = x"
| "join_commas (x # y # ys) = x @ '','' @ join_commas (y # ys)"

definition plain_writerow :: "string option list \<Rightarrow> string" where
  "plain_writerow cells = join_commas (map (\<lambda>c. case c of None \<Rightarrow> [] | Some v \<Rightarrow> v) cells)"

text \<open>
  An environment in which urlcrazy always writes the same five lines and dnstwist fails
  with a nonzero exit status for the domain \<open>a.com\<close> and prints three lines otherwise.
\<close>

definition demo_env :: env where
  "demo_env =
     \<lparr>csv_reader = plain_reader,
      csv_writerow = plain_writerow,
      urlcrazy_tool = (\<lambda>argv. UcRan (Some
         [''Type,Typo,DNS-A,CC-A'',
          ''Swap,examp1e.com,1.2.3.4,US'',
          ''Swap,exarnple.com,1.2.3.5,US'',
          ''Glyph,exarnple.com,1.2.3.5,US'',
          ''Flip,dxample.com,,?''])),
      dnstwist_tool = (\<lambda>argv.
         if last argv = ''a.com'' then DtFailed
         else DtPrinted [''fuzzer,domain-name,dns-a'',
                         ''Original*,'' @ last argv @ '','',
                         ''Addition,x'' @ last argv @ '',1.2.3.6'']),
      access_x_ok = (\<lambda>d. True),
      tempfile_ok = (\<lambda>d. True),
      unlink_ok = (\<lambda>p. True),
      smtp_ok = True\<rparr>"

definition demo_args :: "bool \<Rightarrow> bool \<Rightarrow> args" where
  "demo_args urlcrazy_on dnstwist_on =
     \<lparr>config = ''/c'', outfile = ''r.csv'', directory = ''/o'', email = False,
      dnstwist = dnstwist_on, urlcrazy = urlcrazy_on\<rparr>"

definition start_state :: "filesystem \<Rightarrow> state" where
  "start_state fsys = \<lparr>fs = fsys, tempFiles = [], printed = [], invoked = [], mailed = []\<rparr>"

definition config_files :: "string list \<Rightarrow> filesystem" where
  "config_files monitored =
     [(''/c/mydomains.csv'', RegFile monitored),
      (''/c/knowndomains.csv'', RegFile [''Domain,Reason'', ''examp1e.com,Squatter'']),
      (urlcrazyPath, RegFile []),
      (dnstwistPath, RegFile [])]"

text \<open>A directory holding one file of each generator and nothing registered.\<close>

definition parse_state :: state where
  "parse_state = start_state (config_files [''example.com''] @
     [(''/o/old.com.uctmp'', RegFile
         [''Type,Typo,DNS-A,CC-A'',
          ''Swap,examp1e.com,1.2.3.4,US'',
          ''Swap,exarnple.com,1.2.3.5,US'',
          ''Flip,dxample.com,,?'']),
      (''/o/old.com.dttmp'', RegFile
         [''fuzzer,domain-name,dns-a'',
          ''Original*,old.com,'',
          ''Addition,exarnple.com,1.2.3.5'',
          ''Addition,olda.com,1.2.3.6''])])"

text \<open>A directory holding a urlcrazy file left by an earlier run.\<close>

definition stale_state :: state where
  "stale_state = start_state (config_files [''example.com''] @
     [(''/o/old.com.uctmp'', RegFile [''Type,Typo,DNS-A,CC-A'', ''Swap,o1d.com,1.2.3.4,US''])])"

text \<open>dnstwist files whose third line is empty, or holds a NUL byte.\<close>

definition blank_row_state :: state where
  "blank_row_state = start_state (config_files [''example.com''] @
     [(''/o/b.com.dttmp'', RegFile
         [''fuzzer,domain-name,dns-a'', ''Original*,b.com,'', [], ''Addition,xb.com,1.2.3.6''])])"

definition nul_row_state :: state where
  "nul_row_state = start_state (config_files [''example.com''] @
     [(''/o/b.com.dttmp'', RegFile
         [''fuzzer,domain-name,dns-a'', ''Original*,b.com,'',
          ''Addition,'' @ [CHR 0x00] @ ''yb.com,1.2.3.7'', ''Addition,xb.com,1.2.3.6''])])"

text \<open>A urlcrazy file with a NUL byte in its second line and an empty third line.\<close>

definition uc_rows_state :: state where
  "uc_rows_state = start_state (config_files [''example.com''] @
     [(''/o/b.com.uctmp'', RegFile
         [''Type,Typo,DNS-A,CC-A'',
          ''Swap,'' @ [CHR 0x00] @ ''yb.com,1.2.3.7,US'', [], ''Swap,xb.com,1.2.3.6,US''])])"

text \<open>The output directory holds a directory named like a urlcrazy output file.\<close>

definition dir_state :: state where
  "dir_state = start_state (config_files [''a''] @ [(''/o/a.uctmp'', Directory)])"

text \<open>
  A registry of two paths: the first no longer exists, the second is a file in the
  output directory.
\<close>

definition gone_state :: state where
  "gone_state = (start_state (config_files [''gone.com''] @
       [(''/o/here.com.dttmp'', RegFile [''fuzzer,domain-name,dns-a''])]))
     \<lparr>tempFiles := [''/o/gone.com.uctmp'', ''/o/here.com.dttmp'']\<rparr>"

text \<open>An environment in which the process may not unlink urlcrazy's output file.\<close>

definition locked_env :: env where
  "locked_env = demo_env\<lparr>unlink_ok := (\<lambda>p. p \<noteq> ''/o/example.com.uctmp'')\<rparr>"

text \<open>The ledger file is missing.\<close>

definition missing_state :: state where
  "missing_state = start_state
     [(''/c/mydomains.csv'', RegFile [''example.com'']), (urlcrazyPath, RegFile []), (dnstwistPath, RegFile [])]"

section \<open>Properties of the deduplicator\<close>

lemma upt_0_Suc_shift: "[0..<Suc n] = 0 # map Suc [0..<n]"
  by (simp add: upt_conv_Cons map_Suc_upt del: upt_Suc)

lemma dedup_loop_index:
  "dedup_loop (\<lambda>x. x) xs seen result =
     result @ map (\<lambda>i. xs ! i)
       (filter (\<lambda>i. xs ! i \<notin> dom seen \<union> set (take i xs)) [0..<length xs])"
proof (induction xs arbitrary: seen result)
  case Nil
  show ?case by simp
next
  case (Cons x xs)
  show ?case
  proof (cases "seen x")
    case None
    have "dedup_loop (\<lambda>x. x) (x # xs) seen result =
            dedup_loop (\<lambda>x. x) xs (seen(x \<mapsto> 1)) (result @ [x])"
      using None by simp
    also have "\<dots> = (result @ [x]) @ map (\<lambda>i. xs ! i)
        (filter (\<lambda>i. xs ! i \<notin> dom (seen(x \<mapsto> 1)) \<union> set (take i xs)) [0..<length xs])"
      by (rule Cons.IH)
    finally show ?thesis
      using None
      by (simp add: upt_0_Suc_shift filter_map comp_def domIff conj_ac del: upt_Suc)
  next
    case (Some v)
    have mem: "x \<in> dom seen" using Some by (simp add: domIff)
    have "dedup_loop (\<lambda>x. x) (x # xs) seen result = dedup_loop (\<lambda>x. x) xs seen result"
      using Some by simp
    also have "\<dots> = result @ map (\<lambda>i. xs ! i)
        (filter (\<lambda>i. xs ! i \<notin> dom seen \<union> set (take i xs)) [0..<length xs])"
      by (rule Cons.IH)
    finally have step: "dedup_loop (\<lambda>x. x) (x # xs) seen result = result @ map (\<lambda>i. xs ! i)
        (filter (\<lambda>i. xs ! i \<notin> dom seen \<union> set (take i xs)) [0..<length xs])" .
    have same: "(\<lambda>i. xs ! i \<notin> dom seen \<and> xs ! i \<noteq> x \<and> xs ! i \<notin> set (take i xs)) =
                (\<lambda>i. xs ! i \<notin> dom seen \<and> xs ! i \<notin> set (take i xs))"
      using mem by auto
    show ?thesis
      unfolding step using mem
      by (simp add: upt_0_Suc_shift filter_map comp_def same del: upt_Suc)
  qed
qed

lemma dedup_first_occurrences: "dedup xs None = first_occurrences xs"
  by (simp add: dedup_def first_occurrences_def dedup_loop_index)

lemma dedup_loop_distinct:
  "distinct result \<Longrightarrow> set result \<subseteq> dom seen \<Longrightarrow>
   distinct (dedup_loop (\<lambda>x. x) xs seen result)"
proof (induction xs arbitrary: seen result)
  case Nil
  then show ?case by simp
next
  case (Cons x xs)
  show ?case
  proof (cases "seen x")
    case None
    have "distinct (result @ [x])"
      using Cons.prems None by (auto simp: domIff)
    moreover have "set (result @ [x]) \<subseteq> dom (seen(x \<mapsto> 1))"
      using Cons.prems by auto
    ultimately have "distinct (dedup_loop (\<lambda>x. x) xs (seen(x \<mapsto> 1)) (result @ [x]))"
      by (rule Cons.IH)
    then show ?thesis using None by simp
  next
    case (Some v)
    then show ?thesis using Cons.IH [OF Cons.prems] by simp
  qed
qed

lemma dedup_loop_fresh:
  "distinct xs \<Longrightarrow> set xs \<inter> dom seen = {} \<Longrightarrow>
   dedup_loop (\<lambda>x. x) xs seen result = result @ xs"
proof (induction xs arbitrary: seen result)
  case Nil
  then show ?case by simp
next
  case (Cons x xs)
  have unseen: "seen x = None"
    using Cons.prems(2) by (auto simp: domIff)
  have disjoint: "set xs \<inter> dom (seen(x \<mapsto> 1)) = {}"
    using Cons.prems by (auto simp: domIff disjoint_iff split: if_splits)
  have rest: "distinct xs"
    using Cons.prems(1) by simp
  have "dedup_loop (\<lambda>x. x) xs (seen(x \<mapsto> 1)) (result @ [x]) = (result @ [x]) @ xs"
    by (rule Cons.IH [OF rest disjoint])
  then show ?case using unseen by simp
qed

lemma dedup_loop_set:
  "set (dedup_loop (\<lambda>x. x) xs seen result) = set result \<union> (set xs - dom seen)"
proof (induction xs arbitrary: seen result)
  case Nil
  show ?case by simp
next
  case (Cons x xs)
  show ?case
    by (cases "seen x") (auto simp: Cons.IH domIff)
qed

lemma distinct_dedup: "distinct (dedup xs None)"
  by (simp add: dedup_def dedup_loop_distinct)

lemma set_dedup: "set (dedup xs None) = set xs"
  by (simp add: dedup_def dedup_loop_set)

text \<open>
  C7. For every input list the deduplicator returns the subsequence of first
  occurrences: position \<open>i\<close> survives exactly when its value does not occur before
  \<open>i\<close>, and the survivors keep their order. The empty list gives the empty list, and
  for pairwise different \<open>a\<close>, \<open>b\<close>, \<open>c\<close> the input \<open>[a, b, a, c, b]\<close> gives \<open>[a, b, c]\<close>.
\<close>

theorem dedup_first_seen:
  "dedup xs None = first_occurrences xs \<and>
   dedup ([] :: 'a list) None = [] \<and>
   (a \<noteq> b \<and> a \<noteq> c \<and> b \<noteq> c \<longrightarrow> dedup [a, b, a, c, b] None = [a, b, c])"
proof (intro conjI impI)
  show "dedup xs None = first_occurrences xs"
    by (rule dedup_first_occurrences)
  show "dedup ([] :: 'a list) None = []"
    by (simp add: dedup_def)
  show "dedup [a, b, a, c, b] None = [a, b, c]" if "a \<noteq> b \<and> a \<noteq> c \<and> b \<noteq> c"
    using that by (auto simp: dedup_def)
qed

theorem dedup_first_seen_witness:
  "(''a'' \<noteq> ''b'' \<and> ''a'' \<noteq> ''c'' \<and> ''b'' \<noteq> ''c'') \<and>
   dedup [''a'', ''b'', ''a'', ''c'', ''b''] None = [''a'', ''b'', ''c''] \<and>
   dedup [''x'', ''x'', ''y''] None = first_occurrences [''x'', ''x'', ''y''] \<and>
   first_occurrences [''x'', ''x'', ''y''] = [''x'', ''y'']"
proof -
  have different: "''a'' \<noteq> ''b'' \<and> ''a'' \<noteq> ''c'' \<and> ''b'' \<noteq> ''c''"
    by simp
  have firsts: "first_occurrences [''x'', ''x'', ''y''] = [''x'', ''y'']"
    by (simp add: first_occurrences_def)
  from dedup_first_seen [of "[''x'', ''x'', ''y'']" "''a''" "''b''" "''c''"] different firsts
  show ?thesis by blast
qed

text \<open>
  C9. The deduplicator is idempotent: applied to its own output it returns that output.
\<close>

theorem dedup_idempotent: "dedup (dedup xs None) None = dedup xs None"
proof -
  have "distinct (dedup xs None)"
    by (rule distinct_dedup)
  then have "dedup_loop (\<lambda>x. x) (dedup xs None) Map.empty [] = [] @ dedup xs None"
    by (intro dedup_loop_fresh) simp_all
  then show ?thesis
    by (simp add: dedup_def)
qed

section \<open>Properties of parsing, differencing and writing\<close>


lemma parse_uc_rows_known:
  "parse_uc_rows knowndom rows domains = Inr r \<Longrightarrow> set domains \<inter> set knowndom = {} \<Longrightarrow>
   set r \<inter> set knowndom = {}"
proof (induction knowndom rows domains rule: parse_uc_rows.induct)
  case (1 knowndom domains)
  then show ?case by simp
next
  case (2 knowndom e rest domains)
  then show ?case by simp
next
  case (3 knowndom row rest domains)
  then show ?case
    by (auto split: if_splits sum.splits)
qed

lemma parse_dt_rows_known:
  "parse_dt_rows knowndom rows domains = Inr r \<Longrightarrow> set domains \<inter> set knowndom = {} \<Longrightarrow>
   set r \<inter> set knowndom = {}"
proof (induction knowndom rows domains rule: parse_dt_rows.induct)
  case (1 knowndom domains)
  then show ?case by simp
next
  case (2 knowndom e rest domains)
  then show ?case by simp
next
  case (3 knowndom row rest domains)
  then show ?case
    by (auto split: if_splits)
qed

lemma parse_uc_file_known:
  "parse_uc_file E fsys knowndom file domains = Inr r \<Longrightarrow> set domains \<inter> set knowndom = {} \<Longrightarrow>
   set r \<inter> set knowndom = {}"
  by (auto simp: parse_uc_file_def split: sum.splits dest: parse_uc_rows_known)

lemma parse_dt_file_known:
  "parse_dt_file E fsys knowndom file domains = Inr r \<Longrightarrow> set domains \<inter> set knowndom = {} \<Longrightarrow>
   set r \<inter> set knowndom = {}"
  by (auto simp: parse_dt_file_def split: sum.splits prod.splits dest: parse_dt_rows_known)

lemma parse_files_invariant:
  assumes step: "\<And>file domains r. parse_one file domains = Inr r \<Longrightarrow> P domains \<Longrightarrow> P r"
  shows "parse_files parse_one files domains = Inr r \<Longrightarrow> P domains \<Longrightarrow> P r"
proof (induction files arbitrary: domains)
  case Nil
  then show ?case by simp
next
  case (Cons f files)
  then show ?case
    by (auto split: sum.splits dest: step)
qed

lemma collect_domains_known:
  assumes "collect_domains E fsys docRoot knowndom uc dt = Inr r"
  shows "set r \<inter> set knowndom = {}"
proof -
  have uc_inv: "parse_files (parse_uc_file E fsys knowndom) files domains = Inr q \<Longrightarrow>
      set domains \<inter> set knowndom = {} \<Longrightarrow> set q \<inter> set knowndom = {}" for files domains q
    by (rule parse_files_invariant [where P = "\<lambda>ds. set ds \<inter> set knowndom = {}"])
       (rule parse_uc_file_known)
  have dt_inv: "parse_files (parse_dt_file E fsys knowndom) files domains = Inr q \<Longrightarrow>
      set domains \<inter> set knowndom = {} \<Longrightarrow> set q \<inter> set knowndom = {}" for files domains q
    by (rule parse_files_invariant [where P = "\<lambda>ds. set ds \<inter> set knowndom = {}"])
       (rule parse_dt_file_known)
  from assms show ?thesis
    by (auto simp: collect_domains_def split: if_splits sum.splits dest!: uc_inv dt_inv)
qed

lemma write_results_content:
  "write_results E resultsFile domains fsys = Inr fs1 \<Longrightarrow>
   map_of fs1 resultsFile = Some (RegFile (map (csv_writerow E) (result_rows domains)))"
  by (auto simp: write_results_def update_conv' split: sum.splits)

text \<open>
  C1. When \<^verbatim>\<open>parseOutput\<close> returns, the results file holds the header row followed by
  one row per element of a list \<open>domains\<close> that has no repetition and shares no element
  with the list \<open>knowndom\<close> of \<^verbatim>\<open>Domain\<close> values loaded from the ledger at the start of
  the same call, however many generator files reported a domain.
\<close>

theorem parseOutput_new_once:
  assumes "parseOutput E docRoot knownDomains resultsFile uc dt s = (None, s')"
  shows "\<exists>knowndom domains.
           read_known E (fs s) knownDomains = Inr knowndom \<and>
           map_of (fs s') resultsFile =
             Some (RegFile (map (csv_writerow E) ([Some ''Domain''] # map (\<lambda>d. [d]) domains))) \<and>
           distinct domains \<and>
           set domains \<inter> set knowndom = {}"
proof -
  from assms obtain knowndom all fs1 where
    known: "read_known E (fs s) knownDomains = Inr knowndom" and
    coll: "collect_domains E (fs s) docRoot knowndom uc dt = Inr all" and
    wr: "write_results E resultsFile (dedup all None) (fs s) = Inr fs1" and
    s': "s' = s\<lparr>fs := fs1\<rparr>"
    by (auto simp: parseOutput_def split: sum.splits)
  have "set (dedup all None) \<inter> set knowndom = {}"
    using collect_domains_known [OF coll] by (simp add: set_dedup)
  moreover have "map_of (fs s') resultsFile =
      Some (RegFile (map (csv_writerow E) ([Some ''Domain''] # map (\<lambda>d. [d]) (dedup all None))))"
    using write_results_content [OF wr] s' by (simp add: result_rows_def)
  ultimately show ?thesis
    using known distinct_dedup by blast
qed




theorem parseOutput_new_once_witness:
  "parseOutput demo_env ''/o'' ''/c/knowndomains.csv'' ''/o/r.csv'' True True parse_state =
     (None, parse_state\<lparr>fs := fs parse_state @
        [(''/o/r.csv'', RegFile [''Domain'', ''exarnple.com'', ''olda.com''])]\<rparr>) \<and>
   (\<exists>knowndom domains.
      read_known demo_env (fs parse_state) ''/c/knowndomains.csv'' = Inr knowndom \<and>
      map_of (fs parse_state @ [(''/o/r.csv'', RegFile [''Domain'', ''exarnple.com'', ''olda.com''])])
        ''/o/r.csv'' =
        Some (RegFile (map (csv_writerow demo_env) ([Some ''Domain''] # map (\<lambda>d. [d]) domains))) \<and>
      distinct domains \<and> set domains \<inter> set knowndom = {})"
proof -
  have run: "parseOutput demo_env ''/o'' ''/c/knowndomains.csv'' ''/o/r.csv'' True True parse_state =
     (None, parse_state\<lparr>fs := fs parse_state @
        [(''/o/r.csv'', RegFile [''Domain'', ''exarnple.com'', ''olda.com''])]\<rparr>)"
    by code_simp
  from parseOutput_new_once [OF run] show ?thesis
    using run by simp
qed

lemma parse_uc_rows_append:
  "parse_uc_rows knowndom rows acc =
     (case parse_uc_rows knowndom rows [] of Inl e \<Rightarrow> Inl e | Inr ds \<Rightarrow> Inr (acc @ ds))"
proof (induction rows arbitrary: acc)
  case Nil
  show ?case by simp
next
  case (Cons x rows)
  show ?case
  proof (cases x)
    case (Inl e)
    then show ?thesis by simp
  next
    case (Inr row)
    have "(\<exists>e. \<forall>a. parse_uc_rows knowndom (Inr row # rows) a = Inl e) \<or>
          (\<forall>a. parse_uc_rows knowndom (Inr row # rows) a = parse_uc_rows knowndom rows a) \<or>
          (\<exists>t. \<forall>a. parse_uc_rows knowndom (Inr row # rows) a =
                          parse_uc_rows knowndom rows (a @ [t]))"
      by (cases "dict_len row = 0"; cases "dict_get row ''CC-A''"; cases "dict_get row ''Typo''";
          cases "projr (dict_get row ''CC-A'') = Some ''?''";
          cases "projr (dict_get row ''Typo'') \<in> set knowndom"; simp; blast)
    then consider
      (err) e where "\<And>a. parse_uc_rows knowndom (Inr row # rows) a = Inl e"
    | (skip) "\<And>a. parse_uc_rows knowndom (Inr row # rows) a = parse_uc_rows knowndom rows a"
    | (add) t where "\<And>a. parse_uc_rows knowndom (Inr row # rows) a =
                          parse_uc_rows knowndom rows (a @ [t])"
      by blast
    then show ?thesis
    proof cases
      case err
      then show ?thesis using Inr by simp
    next
      case skip
      then show ?thesis using Inr Cons.IH [of acc] by simp
    next
      case add
      have one: "parse_uc_rows knowndom rows [t] =
          (case parse_uc_rows knowndom rows [] of Inl e \<Rightarrow> Inl e | Inr ds \<Rightarrow> Inr ([t] @ ds))"
        by (rule Cons.IH)
      have more: "parse_uc_rows knowndom rows (acc @ [t]) =
          (case parse_uc_rows knowndom rows [] of Inl e \<Rightarrow> Inl e | Inr ds \<Rightarrow> Inr ((acc @ [t]) @ ds))"
        by (rule Cons.IH)
      show ?thesis
        unfolding Inr add [of acc] add [of "[]"] more
        by (simp add: one split: sum.splits)
    qed
  qed
qed

lemma parse_dt_rows_append:
  "parse_dt_rows knowndom rows acc =
     (case parse_dt_rows knowndom rows [] of Inl e \<Rightarrow> Inl e | Inr ds \<Rightarrow> Inr (acc @ ds))"
proof (induction rows arbitrary: acc)
  case Nil
  show ?case by simp
next
  case (Cons x rows)
  show ?case
  proof (cases x)
    case (Inl e)
    then show ?thesis by simp
  next
    case (Inr row)
    have "(\<exists>e. \<forall>a. parse_dt_rows knowndom (Inr row # rows) a = Inl e) \<or>
          (\<forall>a. parse_dt_rows knowndom (Inr row # rows) a = parse_dt_rows knowndom rows a) \<or>
          (\<exists>t. \<forall>a. parse_dt_rows knowndom (Inr row # rows) a =
                          parse_dt_rows knowndom rows (a @ [t]))"
      by (cases "length row \<le> 1"; cases "Some (row ! 1) \<in> set knowndom"; simp; blast)
    then consider
      (err) e where "\<And>a. parse_dt_rows knowndom (Inr row # rows) a = Inl e"
    | (skip) "\<And>a. parse_dt_rows knowndom (Inr row # rows) a = parse_dt_rows knowndom rows a"
    | (add) t where "\<And>a. parse_dt_rows knowndom (Inr row # rows) a =
                          parse_dt_rows knowndom rows (a @ [t])"
      by blast
    then show ?thesis
    proof cases
      case err
      then show ?thesis using Inr by simp
    next
      case skip
      then show ?thesis using Inr Cons.IH [of acc] by simp
    next
      case add
      have one: "parse_dt_rows knowndom rows [t] =
          (case parse_dt_rows knowndom rows [] of Inl e \<Rightarrow> Inl e | Inr ds \<Rightarrow> Inr ([t] @ ds))"
        by (rule Cons.IH)
      have more: "parse_dt_rows knowndom rows (acc @ [t]) =
          (case parse_dt_rows knowndom rows [] of Inl e \<Rightarrow> Inl e | Inr ds \<Rightarrow> Inr ((acc @ [t]) @ ds))"
        by (rule Cons.IH)
      show ?thesis
        unfolding Inr add [of acc] add [of "[]"] more
        by (simp add: one split: sum.splits)
    qed
  qed
qed

lemma parse_uc_file_append:
  "parse_uc_file E fsys knowndom f acc =
     (case parse_uc_file E fsys knowndom f [] of Inl e \<Rightarrow> Inl e | Inr ds \<Rightarrow> Inr (acc @ ds))"
proof (cases "open_read fsys f")
  case (Inl e)
  then show ?thesis by (simp add: parse_uc_file_def)
next
  case (Inr csvfile)
  then show ?thesis
    unfolding parse_uc_file_def
    by (simp add: parse_uc_rows_append [where acc = acc])
qed

lemma parse_dt_file_append:
  "parse_dt_file E fsys knowndom f acc =
     (case parse_dt_file E fsys knowndom f [] of Inl e \<Rightarrow> Inl e | Inr ds \<Rightarrow> Inr (acc @ ds))"
  unfolding parse_dt_file_def
  by (simp add: parse_dt_rows_append [where acc = acc] split: sum.splits prod.splits)

lemma parse_files_grows:
  assumes app: "\<And>f acc. parse_one f acc =
        (case parse_one f [] of Inl e \<Rightarrow> Inl e | Inr ds \<Rightarrow> Inr (acc @ ds))"
  shows "parse_files parse_one files acc = Inr r \<Longrightarrow> set acc \<subseteq> set r"
proof (induction files arbitrary: acc)
  case Nil
  then show ?case by simp
next
  case (Cons f files)
  from Cons.prems obtain mid where
    first: "parse_one f acc = Inr mid" and rest: "parse_files parse_one files mid = Inr r"
    by (auto split: sum.splits)
  from first obtain ds where "mid = acc @ ds"
    by (subst (asm) app) (auto split: sum.splits)
  then show ?case using Cons.IH [OF rest] by auto
qed

lemma parse_files_member:
  assumes app: "\<And>f acc. parse_one f acc =
        (case parse_one f [] of Inl e \<Rightarrow> Inl e | Inr ds \<Rightarrow> Inr (acc @ ds))"
  shows "parse_files parse_one files acc = Inr r \<Longrightarrow> g \<in> set files \<Longrightarrow>
         \<exists>ds. parse_one g [] = Inr ds \<and> set ds \<subseteq> set r"
proof (induction files arbitrary: acc)
  case Nil
  then show ?case by simp
next
  case (Cons f files)
  from Cons.prems(1) obtain mid where
    first: "parse_one f acc = Inr mid" and rest: "parse_files parse_one files mid = Inr r"
    by (auto split: sum.splits)
  from first obtain ds where alone: "parse_one f [] = Inr ds" and mid: "mid = acc @ ds"
    by (subst (asm) app) (auto split: sum.splits)
  show ?case
  proof (cases "g \<in> set files")
    case True
    then show ?thesis by (rule Cons.IH [OF rest])
  next
    case False
    then have "g = f" using Cons.prems(2) by simp
    moreover have "set ds \<subseteq> set r"
      using parse_files_grows [of parse_one, OF app rest] mid by simp
    ultimately show ?thesis using alone by blast
  qed
qed

lemma tmp_files_member:
  "f \<in> set (listdir docRoot fsys) \<Longrightarrow> endswith f ext \<Longrightarrow>
   path_join docRoot f \<in> set (tmp_files docRoot fsys ext)"
  by (simp add: tmp_files_def)

lemma collect_domains_uc_member:
  assumes "collect_domains E fsys docRoot knowndom True dt = Inr r"
    and "g \<in> set (tmp_files docRoot fsys ''.uctmp'')"
  shows "\<exists>ds. parse_uc_file E fsys knowndom g [] = Inr ds \<and> set ds \<subseteq> set r"
proof -
  from assms(1) obtain mid where
    uc: "parse_files (parse_uc_file E fsys knowndom) (tmp_files docRoot fsys ''.uctmp'') [] = Inr mid"
    and after: "if dt then parse_files (parse_dt_file E fsys knowndom)
                  (tmp_files docRoot fsys ''.dttmp'') mid = Inr r else mid = r"
    by (auto simp: collect_domains_def split: sum.splits if_splits)
  from parse_files_member [of "parse_uc_file E fsys knowndom", OF parse_uc_file_append uc assms(2)]
  obtain ds where ds: "parse_uc_file E fsys knowndom g [] = Inr ds" "set ds \<subseteq> set mid"
    by blast
  have "set mid \<subseteq> set r"
  proof (cases dt)
    case True
    then show ?thesis
      using after parse_files_grows [of "parse_dt_file E fsys knowndom", OF parse_dt_file_append]
      by simp
  next
    case False
    then show ?thesis using after by simp
  qed
  then show ?thesis using ds by blast
qed

lemma collect_domains_dt_member:
  assumes "collect_domains E fsys docRoot knowndom uc True = Inr r"
    and "g \<in> set (tmp_files docRoot fsys ''.dttmp'')"
  shows "\<exists>ds. parse_dt_file E fsys knowndom g [] = Inr ds \<and> set ds \<subseteq> set r"
proof -
  from assms(1) obtain mid where
    dt: "parse_files (parse_dt_file E fsys knowndom) (tmp_files docRoot fsys ''.dttmp'') mid = Inr r"
    by (auto simp: collect_domains_def split: sum.splits if_splits)
  from parse_files_member [of "parse_dt_file E fsys knowndom", OF parse_dt_file_append dt assms(2)]
  show ?thesis .
qed

text \<open>
  C10. The files the normalizer reads are found by listing the output directory: for
  every entry \<open>f\<close> of the directory whose name ends in \<^verbatim>\<open>.uctmp\<close> (urlcrazy enabled) or
  \<^verbatim>\<open>.dttmp\<close> (dnstwist enabled), a returning \<^verbatim>\<open>parseOutput\<close> has parsed that file and
  every domain of its qualifying rows is a row of the results file. The registry
  \<^verbatim>\<open>tempFiles\<close> plays no part: with any other registry the call does the same.
\<close>

theorem normalizer_scans_directory:
  assumes run: "parseOutput E docRoot knownDomains resultsFile uc dt s = (None, s')"
    and entry: "f \<in> set (listdir docRoot (fs s))"
  shows "\<exists>knowndom rows.
           read_known E (fs s) knownDomains = Inr knowndom \<and>
           map_of (fs s') resultsFile = Some (RegFile (csv_writerow E [Some ''Domain''] # rows)) \<and>
           (uc \<and> endswith f ''.uctmp'' \<longrightarrow>
              (\<exists>ds. parse_uc_file E (fs s) knowndom (path_join docRoot f) [] = Inr ds \<and>
                    (\<forall>d\<in>set ds. csv_writerow E [d] \<in> set rows))) \<and>
           (dt \<and> endswith f ''.dttmp'' \<longrightarrow>
              (\<exists>ds. parse_dt_file E (fs s) knowndom (path_join docRoot f) [] = Inr ds \<and>
                    (\<forall>d\<in>set ds. csv_writerow E [d] \<in> set rows))) \<and>
           (\<forall>registry. parseOutput E docRoot knownDomains resultsFile uc dt (s\<lparr>tempFiles := registry\<rparr>) =
                        (None, s'\<lparr>tempFiles := registry\<rparr>))"
proof -
  from run obtain knowndom all fs1 where
    known: "read_known E (fs s) knownDomains = Inr knowndom" and
    coll: "collect_domains E (fs s) docRoot knowndom uc dt = Inr all" and
    wr: "write_results E resultsFile (dedup all None) (fs s) = Inr fs1" and
    s': "s' = s\<lparr>fs := fs1\<rparr>"
    by (auto simp: parseOutput_def split: sum.splits)
  define rows where "rows = map (\<lambda>d. csv_writerow E [d]) (dedup all None)"
  have content: "map_of (fs s') resultsFile = Some (RegFile (csv_writerow E [Some ''Domain''] # rows))"
    using write_results_content [OF wr] s' by (simp add: result_rows_def rows_def comp_def)
  have written: "csv_writerow E [d] \<in> set rows" if "d \<in> set all" for d
    using that by (simp add: rows_def set_dedup)
  have uc_part: "\<exists>ds. parse_uc_file E (fs s) knowndom (path_join docRoot f) [] = Inr ds \<and>
                    (\<forall>d\<in>set ds. csv_writerow E [d] \<in> set rows)"
    if "uc" "endswith f ''.uctmp''"
  proof -
    have "path_join docRoot f \<in> set (tmp_files docRoot (fs s) ''.uctmp'')"
      using entry that(2) by (rule tmp_files_member)
    moreover have "collect_domains E (fs s) docRoot knowndom True dt = Inr all"
      using coll that(1) by simp
    ultimately obtain ds where
      "parse_uc_file E (fs s) knowndom (path_join docRoot f) [] = Inr ds" "set ds \<subseteq> set all"
      using collect_domains_uc_member by blast
    then show ?thesis using written by blast
  qed
  have dt_part: "\<exists>ds. parse_dt_file E (fs s) knowndom (path_join docRoot f) [] = Inr ds \<and>
                    (\<forall>d\<in>set ds. csv_writerow E [d] \<in> set rows)"
    if "dt" "endswith f ''.dttmp''"
  proof -
    have "path_join docRoot f \<in> set (tmp_files docRoot (fs s) ''.dttmp'')"
      using entry that(2) by (rule tmp_files_member)
    moreover have "collect_domains E (fs s) docRoot knowndom uc True = Inr all"
      using coll that(1) by simp
    ultimately obtain ds where
      "parse_dt_file E (fs s) knowndom (path_join docRoot f) [] = Inr ds" "set ds \<subseteq> set all"
      using collect_domains_dt_member by blast
    then show ?thesis using written by blast
  qed
  have free: "parseOutput E docRoot knownDomains resultsFile uc dt (s\<lparr>tempFiles := registry\<rparr>) =
                (None, s'\<lparr>tempFiles := registry\<rparr>)" for registry
    using known coll wr s' by (simp add: parseOutput_def)
  show ?thesis
    using known content uc_part dt_part free by blast
qed

theorem normalizer_scans_directory_witness:
  "tempFiles parse_state = [] \<and>
   ''old.com.uctmp'' \<in> set (listdir ''/o'' (fs parse_state)) \<and>
   endswith ''old.com.uctmp'' ''.uctmp'' \<and>
   parseOutput demo_env ''/o'' ''/c/knowndomains.csv'' ''/o/r.csv'' True True parse_state =
     (None, parse_state\<lparr>fs := fs parse_state @
        [(''/o/r.csv'', RegFile [''Domain'', ''exarnple.com'', ''olda.com''])]\<rparr>) \<and>
   parse_uc_file demo_env (fs parse_state) [Some ''examp1e.com''] ''/o/old.com.uctmp'' [] =
     Inr [Some ''exarnple.com''] \<and>
   (\<exists>rows. map_of (fs parse_state @ [(''/o/r.csv'', RegFile [''Domain'', ''exarnple.com'', ''olda.com''])])
        ''/o/r.csv'' = Some (RegFile (csv_writerow demo_env [Some ''Domain''] # rows)) \<and>
      csv_writerow demo_env [Some ''exarnple.com''] \<in> set rows)"
proof -
  have registry: "tempFiles parse_state = []"
    by code_simp
  have entry: "''old.com.uctmp'' \<in> set (listdir ''/o'' (fs parse_state))"
    by code_simp
  have suffix: "endswith ''old.com.uctmp'' ''.uctmp''"
    by code_simp
  have run: "parseOutput demo_env ''/o'' ''/c/knowndomains.csv'' ''/o/r.csv'' True True parse_state =
     (None, parse_state\<lparr>fs := fs parse_state @
        [(''/o/r.csv'', RegFile [''Domain'', ''exarnple.com'', ''olda.com''])]\<rparr>)"
    by code_simp
  have known: "read_known demo_env (fs parse_state) ''/c/knowndomains.csv'' = Inr [Some ''examp1e.com'']"
    by code_simp
  have path: "path_join ''/o'' ''old.com.uctmp'' = ''/o/old.com.uctmp''"
    by code_simp
  have parsed: "parse_uc_file demo_env (fs parse_state) [Some ''examp1e.com''] ''/o/old.com.uctmp'' [] =
     Inr [Some ''exarnple.com'']"
    by code_simp
  from normalizer_scans_directory [OF run entry]
  obtain knowndom rows where
    k: "read_known demo_env (fs parse_state) ''/c/knowndomains.csv'' = Inr knowndom" and
    content: "map_of (fs (parse_state\<lparr>fs := fs parse_state @
        [(''/o/r.csv'', RegFile [''Domain'', ''exarnple.com'', ''olda.com''])]\<rparr>)) ''/o/r.csv'' =
        Some (RegFile (csv_writerow demo_env [Some ''Domain''] # rows))" and
    uc: "True \<and> endswith ''old.com.uctmp'' ''.uctmp'' \<longrightarrow>
         (\<exists>ds. parse_uc_file demo_env (fs parse_state) knowndom (path_join ''/o'' ''old.com.uctmp'') [] = Inr ds \<and>
               (\<forall>d\<in>set ds. csv_writerow demo_env [d] \<in> set rows))"
    by blast
  have "knowndom = [Some ''examp1e.com'']"
    using k known by simp
  then have "csv_writerow demo_env [Some ''exarnple.com''] \<in> set rows"
    using uc suffix parsed path by simp
  then show ?thesis
    using registry entry suffix run parsed content by auto
qed

text \<open>
  C8. The result writer (the end of \<^verbatim>\<open>parseOutput\<close>, which hands it the deduplicated
  list): whenever the results path is not a directory, the writer returns and the file
  then holds the header row naming the column \<^verbatim>\<open>Domain\<close>, followed by one row per
  candidate in the order given: 1 row for no candidate, 1 + N rows for N candidates.
\<close>

theorem result_writer_rows:
  assumes "map_of fsys resultsFile \<noteq> Some Directory"
  shows "\<exists>fs1. write_results E resultsFile domains fsys = Inr fs1 \<and>
           map_of fs1 resultsFile =
             Some (RegFile (csv_writerow E [Some ''Domain''] # map (\<lambda>d. csv_writerow E [d]) domains)) \<and>
           length (csv_writerow E [Some ''Domain''] # map (\<lambda>d. csv_writerow E [d]) domains) =
             1 + length domains"
proof -
  have "open_write fsys resultsFile = Inr (AList.update resultsFile (RegFile []) fsys)"
    using assms by (simp add: open_write_def split: option.splits node.splits)
  then show ?thesis
    by (simp add: write_results_def result_rows_def update_conv' comp_def)
qed

theorem result_writer_rows_witness:
  "map_of (fs parse_state) ''/o/r.csv'' \<noteq> Some Directory \<and>
   (\<exists>fs1. write_results demo_env ''/o/r.csv'' [] (fs parse_state) = Inr fs1 \<and>
      map_of fs1 ''/o/r.csv'' = Some (RegFile [''Domain''])) \<and>
   (\<exists>fs1. write_results demo_env ''/o/r.csv'' [Some ''b.com'', Some ''a.com''] (fs parse_state) = Inr fs1 \<and>
      map_of fs1 ''/o/r.csv'' = Some (RegFile [''Domain'', ''b.com'', ''a.com'']))"
proof -
  have free: "map_of (fs parse_state) ''/o/r.csv'' \<noteq> Some Directory"
    by code_simp
  have texts: "csv_writerow demo_env [Some ''Domain''] = ''Domain''"
    "csv_writerow demo_env [Some ''b.com''] = ''b.com''"
    "csv_writerow demo_env [Some ''a.com''] = ''a.com''"
    by code_simp+
  from result_writer_rows [OF free, of demo_env "[]"]
       result_writer_rows [OF free, of demo_env "[Some ''b.com'', Some ''a.com'']"]
  show ?thesis
    using free texts by simp
qed

section \<open>Properties of the checks, the cleanup and whole runs\<close>


lemma say_fields [simp]:
  "fs (say l s) = fs s" "tempFiles (say l s) = tempFiles s" "invoked (say l s) = invoked s"
  "mailed (say l s) = mailed s" "printed (say l s) = printed s @ [l]"
  by (simp_all add: say_def)

lemma os_remove_gone:
  "os_remove ok p fsys = Inr fs1 \<Longrightarrow> map_of fs1 p = None"
  by (auto simp: os_remove_def delete_conv' split: option.splits node.splits if_splits)

lemma os_remove_other:
  "os_remove ok p fsys = Inr fs1 \<Longrightarrow> q \<noteq> p \<Longrightarrow> map_of fs1 q = map_of fsys q"
  by (auto simp: os_remove_def delete_conv' split: option.splits node.splits if_splits)

lemma os_remove_error: "os_remove ok p fsys = Inl e \<Longrightarrow> e = OSError"
  by (auto simp: os_remove_def split: option.splits node.splits if_splits)

lemma os_remove_refused:
  "os_remove ok p fsys = Inl e \<Longrightarrow>
   map_of fsys p = None \<or> map_of fsys p = Some Directory \<or> \<not> ok p"
  by (auto simp: os_remove_def split: option.splits node.splits if_splits)

lemma os_remove_same_lookup:
  "map_of fs1 q = map_of fs2 q \<Longrightarrow> os_remove ok q fs1 = Inl e \<Longrightarrow> os_remove ok q fs2 = Inl e"
  by (auto simp: os_remove_def split: option.splits node.splits if_splits)

lemma remove_each_keeps_registry: "tempFiles (remove_each E ps s) = tempFiles s"
  by (induction ps arbitrary: s) (auto split: sum.splits)

lemma remove_each_shrinks:
  "map_of (fs (remove_each E ps s)) q = None \<or>
   map_of (fs (remove_each E ps s)) q = map_of (fs s) q"
proof (induction ps arbitrary: s)
  case Nil
  show ?case by simp
next
  case (Cons p ps)
  show ?case
  proof (cases "os_remove (unlink_ok E) p (fs s)")
    case (Inl e)
    then show ?thesis
      using Cons.IH [of "say (''Error removing temporary file: '' @ p) s"] by simp
  next
    case (Inr fs1)
    have "map_of fs1 q = None \<or> map_of fs1 q = map_of (fs s) q"
      using os_remove_gone [OF Inr] os_remove_other [OF Inr] by (cases "q = p") auto
    then show ?thesis
      using Inr Cons.IH [of "s\<lparr>fs := fs1\<rparr>"] by auto
  qed
qed

lemma remove_each_keeps_lines: "set (printed s) \<subseteq> set (printed (remove_each E ps s))"
proof (induction ps arbitrary: s)
  case Nil
  show ?case by simp
next
  case (Cons p ps)
  show ?case
  proof (cases "os_remove (unlink_ok E) p (fs s)")
    case (Inl e)
    then show ?thesis
      using Cons.IH [of "say (''Error removing temporary file: '' @ p) s"] by auto
  next
    case (Inr fs1)
    then show ?thesis
      using Cons.IH [of "s\<lparr>fs := fs1\<rparr>"] by simp
  qed
qed

lemma remove_each_reports_refusal:
  "q \<in> set ps \<Longrightarrow> os_remove (unlink_ok E) q (fs s) = Inl e \<Longrightarrow>
   (''Error removing temporary file: '' @ q) \<in> set (printed (remove_each E ps s))"
proof (induction ps arbitrary: s)
  case Nil
  then show ?case by simp
next
  case (Cons p ps)
  show ?case
  proof (cases "q = p")
    case True
    have "(''Error removing temporary file: '' @ q)
            \<in> set (printed (say (''Error removing temporary file: '' @ p) s))"
      using True by simp
    then show ?thesis
      using Cons.prems(2) True
        remove_each_keeps_lines [of "say (''Error removing temporary file: '' @ p) s" E ps]
      by auto
  next
    case False
    then have later: "q \<in> set ps" using Cons.prems(1) by simp
    show ?thesis
    proof (cases "os_remove (unlink_ok E) p (fs s)")
      case (Inl e')
      have "os_remove (unlink_ok E) q (fs (say (''Error removing temporary file: '' @ p) s)) = Inl e"
        using Cons.prems(2) by simp
      then show ?thesis using Inl Cons.IH [OF later] by simp
    next
      case (Inr fs1)
      have "map_of (fs s) q = map_of fs1 q"
        using os_remove_other [OF Inr False] by simp
      then have "os_remove (unlink_ok E) q (fs (s\<lparr>fs := fs1\<rparr>)) = Inl e"
        using os_remove_same_lookup [OF _ Cons.prems(2)] by simp
      then show ?thesis using Inr Cons.IH [OF later] by simp
    qed
  qed
qed

lemma remove_each_removes:
  "q \<in> set ps \<Longrightarrow> map_of (fs s) q = Some (RegFile c) \<Longrightarrow> unlink_ok E q \<Longrightarrow>
   map_of (fs (remove_each E ps s)) q = None"
proof (induction ps arbitrary: s)
  case Nil
  then show ?case by simp
next
  case (Cons p ps)
  show ?case
  proof (cases "q = p")
    case True
    have "os_remove (unlink_ok E) p (fs s) = Inr (AList.delete p (fs s))"
      using Cons.prems(2,3) True by (simp add: os_remove_def)
    moreover have "map_of (fs (s\<lparr>fs := AList.delete p (fs s)\<rparr>)) q = None"
      using True by (simp add: delete_conv')
    ultimately show ?thesis
      using remove_each_shrinks [of E ps "s\<lparr>fs := AList.delete p (fs s)\<rparr>" q] by simp
  next
    case False
    then have later: "q \<in> set ps" using Cons.prems(1) by simp
    show ?thesis
    proof (cases "os_remove (unlink_ok E) p (fs s)")
      case (Inl e)
      then show ?thesis
        using Cons.IH [OF later, of "say (''Error removing temporary file: '' @ p) s"] Cons.prems(2,3)
        by simp
    next
      case (Inr fs1)
      have "map_of (fs (s\<lparr>fs := fs1\<rparr>)) q = Some (RegFile c)"
        using os_remove_other [OF Inr False] Cons.prems(2) by simp
      then show ?thesis
        using Inr Cons.IH [OF later _ Cons.prems(3)] by simp
    qed
  qed
qed

lemma os_remove_cases:
  "os_remove ok q fsys = Inl OSError \<or> (\<exists>c. map_of fsys q = Some (RegFile c) \<and> ok q)"
  by (auto simp: os_remove_def split: option.splits node.splits)

lemma doCleanup_keeps_registry: "tempFiles (doCleanup E docRoot s) = tempFiles s"
  by (simp add: doCleanup_def remove_each_keeps_registry)

lemma doCleanup_reports:
  "q \<in> set (tempFiles s) \<Longrightarrow> os_remove (unlink_ok E) q (fs s) = Inl OSError \<Longrightarrow>
   (''Error removing temporary file: '' @ q) \<in> set (printed (doCleanup E docRoot s))"
  using remove_each_reports_refusal [of q "tempFiles s" E s OSError]
  by (simp add: doCleanup_def)

lemma doCleanup_removes:
  "q \<in> set (tempFiles s) \<Longrightarrow> os_remove (unlink_ok E) q (fs s) \<noteq> Inl OSError \<Longrightarrow>
   \<not> exists_path (fs (doCleanup E docRoot s)) q"
  using os_remove_cases [of "unlink_ok E" q "fs s"]
  by (auto simp: doCleanup_def exists_path_def remove_each_removes)

lemma doCleanup_survivor:
  assumes "q \<in> set (tempFiles s)" and "exists_path (fs (doCleanup E docRoot s)) q"
  shows "(map_of (fs (doCleanup E docRoot s)) q = Some Directory \<or> \<not> unlink_ok E q) \<and>
         (''Error removing temporary file: '' @ q) \<in> set (printed (doCleanup E docRoot s))"
proof -
  have refused: "os_remove (unlink_ok E) q (fs s) = Inl OSError"
    using doCleanup_removes [OF assms(1), of E docRoot] assms(2) by blast
  have same: "map_of (fs (doCleanup E docRoot s)) q = map_of (fs s) q"
    using remove_each_shrinks [of E "tempFiles s" s q] assms(2)
    by (auto simp: doCleanup_def exists_path_def)
  have "map_of (fs s) q = None \<or> map_of (fs s) q = Some Directory \<or> \<not> unlink_ok E q"
    using os_remove_refused [OF refused] .
  then have "map_of (fs (doCleanup E docRoot s)) q = Some Directory \<or> \<not> unlink_ok E q"
    using same assms(2) by (auto simp: exists_path_def)
  then show ?thesis
    using doCleanup_reports [OF assms(1) refused] by simp
qed

lemma checkPerms_registry: "checkPerms E docRoot resultsFile s = (t, s1) \<Longrightarrow> tempFiles s1 = tempFiles s"
  by (auto simp: checkPerms_def split: if_splits)

lemma checkDepends_registry:
  "checkDepends myDomains knownDomains uc dt s = (t, s1) \<Longrightarrow> tempFiles s1 = tempFiles s"
  by (auto simp: checkDepends_def split: if_splits)

lemma main_ends_with_cleanup:
  assumes "tempFiles s = []" and "main E a s = (t, s')"
  shows "tempFiles s' = [] \<or> (\<exists>s4. s' = doCleanup E (directory a) s4)"
proof (cases "checkPerms E (directory a) (path_join (directory a) (outfile a)) s")
  case (Pair t1 s1)
  note perms = Pair
  show ?thesis
  proof (cases t1)
    case (Some stop1)
    then have "s' = s1" using assms(2) perms by (simp add: main_def)
    then show ?thesis using checkPerms_registry [OF perms] assms(1) by simp
  next
    case None
    show ?thesis
    proof (cases "checkDepends (path_join (config a) ''mydomains.csv'')
                    (path_join (config a) ''knowndomains.csv'') (urlcrazy a) (dnstwist a) s1")
      case (Pair t2 s2)
      show ?thesis
      proof (cases t2)
        case (Some stop2)
        then have "s' = s2" using assms(2) perms None Pair by (simp add: main_def)
        then show ?thesis
          using checkDepends_registry [OF Pair] checkPerms_registry [OF perms] assms(1) by simp
      next
        case no_stop: None
        obtain t4 s4 where "run_stages E a (directory a) (path_join (directory a) (outfile a))
            (path_join (config a) ''mydomains.csv'') (path_join (config a) ''knowndomains.csv'')
            (doCleanup E (directory a) s2) = (t4, s4)"
          by (cases "run_stages E a (directory a) (path_join (directory a) (outfile a))
            (path_join (config a) ''mydomains.csv'') (path_join (config a) ''knowndomains.csv'')
            (doCleanup E (directory a) s2)") blast
        then have "s' = doCleanup E (directory a) s4"
          using assms(2) perms None Pair no_stop by (simp add: main_def)
        then show ?thesis by blast
      qed
    qed
  qed
qed

text \<open>
  C6, as the code has it. The registry is empty when the process starts. However the
  run ends (a check calls \<^verbatim>\<open>sys.exit()\<close>, a stage raises, or everything completes), a
  registered path no longer exists after the exit-time \<^verbatim>\<open>doCleanup\<close> unless
  \<^verbatim>\<open>os.remove\<close> raised OSError on it although it exists: it is a directory, or the
  process may not unlink it; and every such survivor has been reported by the line
  \<^verbatim>\<open>Error removing temporary file: <path>\<close>. Whatever the registry and the file system
  are when \<^verbatim>\<open>doCleanup\<close> is called, a registered path on which \<^verbatim>\<open>os.remove\<close> raises
  (it is missing, or refused) is reported by that line and the loop goes on: every other
  registered path is gone afterwards.
\<close>

theorem exit_cleanup_removes_files:
  assumes "tempFiles s = []" and "main E a s = (t, s')"
  shows "(\<forall>q\<in>set (tempFiles s'). exists_path (fs s') q \<longrightarrow>
            (map_of (fs s') q = Some Directory \<or> \<not> unlink_ok E q) \<and>
            (''Error removing temporary file: '' @ q) \<in> set (printed s')) \<and>
         (\<forall>s0 :: state. \<forall>q\<in>set (tempFiles s0).
            (os_remove (unlink_ok E) q (fs s0) = Inl OSError \<longrightarrow>
               (''Error removing temporary file: '' @ q)
                 \<in> set (printed (doCleanup E (directory a) s0))) \<and>
            (os_remove (unlink_ok E) q (fs s0) \<noteq> Inl OSError \<longrightarrow>
               \<not> exists_path (fs (doCleanup E (directory a) s0)) q))"
proof (intro conjI allI ballI impI)
  fix q
  assume member: "q \<in> set (tempFiles s')" and there: "exists_path (fs s') q"
  from main_ends_with_cleanup [OF assms] member
  obtain s4 where end_state: "s' = doCleanup E (directory a) s4"
    by auto
  then have "q \<in> set (tempFiles s4)"
    using member by (simp add: doCleanup_keeps_registry)
  from doCleanup_survivor [OF this, of E "directory a"] there end_state
  show "map_of (fs s') q = Some Directory \<or> \<not> unlink_ok E q"
    and "(''Error removing temporary file: '' @ q) \<in> set (printed s')"
    by simp_all
next
  fix s0 :: state and q
  assume "q \<in> set (tempFiles s0)" and "os_remove (unlink_ok E) q (fs s0) = Inl OSError"
  then show "(''Error removing temporary file: '' @ q)
                 \<in> set (printed (doCleanup E (directory a) s0))"
    by (rule doCleanup_reports)
next
  fix s0 :: state and q
  assume "q \<in> set (tempFiles s0)" and "os_remove (unlink_ok E) q (fs s0) \<noteq> Inl OSError"
  then show "\<not> exists_path (fs (doCleanup E (directory a) s0)) q"
    by (rule doCleanup_removes)
qed

lemma checkPerms_fails:
  assumes "\<not> access_x_ok E docRoot \<or> \<not> tempfile_ok E docRoot"
  shows "\<exists>line1 line2. checkPerms E docRoot resultsFile s =
           (Some (SystemExit None), s\<lparr>printed := printed s @ [line1, line2]\<rparr>)"
proof (cases "access_x_ok E docRoot")
  case False
  then have "checkPerms E docRoot resultsFile s =
      (Some (SystemExit None), s\<lparr>printed := printed s @
         [''Destination directory '' @ docRoot @ '' not accessible.'',
          ''Please check permissions.  Exiting...'']\<rparr>)"
    by (simp add: checkPerms_def say_def)
  then show ?thesis by blast
next
  case True
  then have "checkPerms E docRoot resultsFile s =
      (Some (SystemExit None), s\<lparr>printed := printed s @
         [''Unable to write to desired directory: '' @ docRoot @ ''.'',
          ''Please check permissions.  Exiting...'']\<rparr>)"
    using assms by (simp add: checkPerms_def say_def)
  then show ?thesis by blast
qed

lemma checkPerms_passes:
  "access_x_ok E docRoot \<Longrightarrow> tempfile_ok E docRoot \<Longrightarrow> checkPerms E docRoot resultsFile s = (None, s)"
  by (simp add: checkPerms_def)

lemma checkDepends_fails:
  assumes "\<not> exists_path (fs s) myDomains \<or> \<not> exists_path (fs s) knownDomains \<or>
           (uc \<and> \<not> exists_path (fs s) urlcrazyPath) \<or> (dt \<and> \<not> exists_path (fs s) dnstwistPath)"
  shows "\<exists>line1 line2. checkDepends myDomains knownDomains uc dt s =
           (Some (SystemExit None), s\<lparr>printed := printed s @ [line1, line2]\<rparr>)"
proof -
  consider
    (files) "\<not> exists_path (fs s) myDomains \<or> \<not> exists_path (fs s) knownDomains"
  | (uc) "exists_path (fs s) myDomains" "exists_path (fs s) knownDomains"
         "uc \<and> \<not> exists_path (fs s) urlcrazyPath"
  | (dt) "exists_path (fs s) myDomains" "exists_path (fs s) knownDomains"
         "\<not> (uc \<and> \<not> exists_path (fs s) urlcrazyPath)" "dt \<and> \<not> exists_path (fs s) dnstwistPath"
    using assms by blast
  then show ?thesis
  proof cases
    case files
    then have "checkDepends myDomains knownDomains uc dt s =
      (Some (SystemExit None), s\<lparr>printed := printed s @
         [''Required configuration files - mydomains.csv or knowndomains.csv - not found.'',
          ''Please verify configuration.'']\<rparr>)"
      by (simp add: checkDepends_def say_def)
    then show ?thesis by blast
  next
    case uc
    then have "checkDepends myDomains knownDomains uc dt s =
      (Some (SystemExit None), s\<lparr>printed := printed s @
         [''URLCrazy specified as '' @ urlcrazyPath @ '' but was not found.'',
          ''Please check urlcrazyPath in crazyParser.py.  Exiting...'']\<rparr>)"
      by (simp add: checkDepends_def say_def)
    then show ?thesis by blast
  next
    case dt
    then have "checkDepends myDomains knownDomains uc dt s =
      (Some (SystemExit None), s\<lparr>printed := printed s @
         [''DNStwist specified as '' @ dnstwistPath @ ''but was not found.'',
          ''Please check urlcrazyPath in crazyParser.py.  Exiting...'']\<rparr>)"
      by (auto simp: checkDepends_def say_def)
    then show ?thesis by blast
  qed
qed

text \<open>
  C4, as the code has it. For every environment error (output directory not accessible
  or not writable, \<^verbatim>\<open>mydomains.csv\<close> or \<^verbatim>\<open>knowndomains.csv\<close> missing, the program of an
  enabled generator missing) the run prints two lines of diagnostic and ends through
  \<^verbatim>\<open>sys.exit()\<close> without argument, with nothing else in the state changed, so no
  subprocess has been started; the exit status of \<^verbatim>\<open>sys.exit()\<close> is 0.
\<close>

theorem environment_error_exits:
  assumes "\<not> access_x_ok E (directory a) \<or> \<not> tempfile_ok E (directory a) \<or>
           \<not> exists_path (fs s) (path_join (config a) ''mydomains.csv'') \<or>
           \<not> exists_path (fs s) (path_join (config a) ''knowndomains.csv'') \<or>
           (urlcrazy a \<and> \<not> exists_path (fs s) urlcrazyPath) \<or>
           (dnstwist a \<and> \<not> exists_path (fs s) dnstwistPath)"
  shows "\<exists>line1 line2.
           main E a s = (Some (SystemExit None), s\<lparr>printed := printed s @ [line1, line2]\<rparr>) \<and>
           invoked (snd (main E a s)) = invoked s \<and>
           exit_status (fst (main E a s)) = 0"
proof (cases "access_x_ok E (directory a) \<and> tempfile_ok E (directory a)")
  case False
  then obtain line1 line2 where
    "checkPerms E (directory a) (path_join (directory a) (outfile a)) s =
       (Some (SystemExit None), s\<lparr>printed := printed s @ [line1, line2]\<rparr>)"
    using checkPerms_fails [of E "directory a"] by blast
  then have "main E a s = (Some (SystemExit None), s\<lparr>printed := printed s @ [line1, line2]\<rparr>)"
    by (simp add: main_def)
  then show ?thesis
    by (intro exI [where x = line1] exI [where x = line2]) simp
next
  case True
  then have perms: "checkPerms E (directory a) (path_join (directory a) (outfile a)) s = (None, s)"
    by (simp add: checkPerms_passes)
  from True assms obtain line1 line2 where
    "checkDepends (path_join (config a) ''mydomains.csv'') (path_join (config a) ''knowndomains.csv'')
       (urlcrazy a) (dnstwist a) s =
       (Some (SystemExit None), s\<lparr>printed := printed s @ [line1, line2]\<rparr>)"
    using checkDepends_fails [of s "path_join (config a) ''mydomains.csv''"
            "path_join (config a) ''knowndomains.csv''" "urlcrazy a" "dnstwist a"]
    by blast
  then have "main E a s = (Some (SystemExit None), s\<lparr>printed := printed s @ [line1, line2]\<rparr>)"
    using perms by (simp add: main_def)
  then show ?thesis
    by (intro exI [where x = line1] exI [where x = line2]) simp
qed

theorem environment_error_exits_witness:
  "\<not> exists_path (fs missing_state) (path_join (config (demo_args True True)) ''knowndomains.csv'') \<and>
   main demo_env (demo_args True True) missing_state =
     (Some (SystemExit None), missing_state\<lparr>printed :=
        [''Required configuration files - mydomains.csv or knowndomains.csv - not found.'',
         ''Please verify configuration.'']\<rparr>) \<and>
   invoked (snd (main demo_env (demo_args True True) missing_state)) = [] \<and>
   exit_status (fst (main demo_env (demo_args True True) missing_state)) = 0"
proof -
  have missing: "\<not> exists_path (fs missing_state) (path_join (config (demo_args True True)) ''knowndomains.csv'')"
    by code_simp
  have run: "main demo_env (demo_args True True) missing_state =
     (Some (SystemExit None), missing_state\<lparr>printed :=
        [''Required configuration files - mydomains.csv or knowndomains.csv - not found.'',
         ''Please verify configuration.'']\<rparr>)"
    by code_simp
  have none: "invoked missing_state = []"
    by code_simp
  from environment_error_exits [of demo_env "demo_args True True" missing_state] missing
  show ?thesis
    using run none by auto
qed

text \<open>
  C4 as stated fails: with \<^verbatim>\<open>knowndomains.csv\<close> missing the exit status is not nonzero.
\<close>

theorem environment_error_status_zero:
  "\<not> exists_path (fs missing_state) (path_join (config (demo_args True True)) ''knowndomains.csv'') \<and>
   \<not> exit_status (fst (main demo_env (demo_args True True) missing_state)) \<noteq> 0"
  by code_simp

theorem exit_cleanup_removes_files_witness:
  "tempFiles (start_state (config_files [''example.com''])) = [] \<and>
   tempFiles (snd (main locked_env (demo_args True True) (start_state (config_files [''example.com''])))) =
     [''/o/example.com.uctmp'', ''/o/example.com.dttmp''] \<and>
   exists_path (fs (snd (main locked_env (demo_args True True)
       (start_state (config_files [''example.com''])))))  ''/o/example.com.uctmp'' \<and>
   \<not> unlink_ok locked_env ''/o/example.com.uctmp'' \<and>
   (''Error removing temporary file: '' @ ''/o/example.com.uctmp'')
      \<in> set (printed (snd (main locked_env (demo_args True True)
            (start_state (config_files [''example.com'']))))) \<and>
   \<not> exists_path (fs (snd (main locked_env (demo_args True True)
       (start_state (config_files [''example.com''])))))  ''/o/example.com.dttmp'' \<and>
   tempFiles gone_state = [''/o/gone.com.uctmp'', ''/o/here.com.dttmp''] \<and>
   os_remove (unlink_ok locked_env) ''/o/gone.com.uctmp'' (fs gone_state) = Inl OSError \<and>
   (''Error removing temporary file: '' @ ''/o/gone.com.uctmp'')
      \<in> set (printed (doCleanup locked_env ''/o'' gone_state)) \<and>
   os_remove (unlink_ok locked_env) ''/o/here.com.dttmp'' (fs gone_state) \<noteq> Inl OSError \<and>
   \<not> exists_path (fs (doCleanup locked_env ''/o'' gone_state)) ''/o/here.com.dttmp''"
proof -
  let ?run = "main locked_env (demo_args True True) (start_state (config_files [''example.com'']))"
  have empty: "tempFiles (start_state (config_files [''example.com''])) = []"
    by code_simp
  have registry: "tempFiles (snd ?run) = [''/o/example.com.uctmp'', ''/o/example.com.dttmp'']"
    by code_simp
  have kept: "exists_path (fs (snd ?run)) ''/o/example.com.uctmp''"
    by code_simp
  have gone: "\<not> exists_path (fs (snd ?run)) ''/o/example.com.dttmp''"
    by code_simp
  have locked: "\<not> unlink_ok locked_env ''/o/example.com.uctmp''"
    by code_simp
  have listed: "tempFiles gone_state = [''/o/gone.com.uctmp'', ''/o/here.com.dttmp'']"
    by code_simp
  have missing: "os_remove (unlink_ok locked_env) ''/o/gone.com.uctmp'' (fs gone_state) = Inl OSError"
    by code_simp
  have present: "os_remove (unlink_ok locked_env) ''/o/here.com.dttmp'' (fs gone_state) \<noteq> Inl OSError"
    by code_simp
  have out: "directory (demo_args True True) = ''/o''"
    by code_simp
  from exit_cleanup_removes_files [OF empty, of locked_env "demo_args True True" "fst ?run" "snd ?run"]
  have survivors: "\<forall>q\<in>set (tempFiles (snd ?run)). exists_path (fs (snd ?run)) q \<longrightarrow>
            (map_of (fs (snd ?run)) q = Some Directory \<or> \<not> unlink_ok locked_env q) \<and>
            (''Error removing temporary file: '' @ q) \<in> set (printed (snd ?run))"
    and cleanup: "\<forall>s0 :: state. \<forall>q\<in>set (tempFiles s0).
            (os_remove (unlink_ok locked_env) q (fs s0) = Inl OSError \<longrightarrow>
               (''Error removing temporary file: '' @ q)
                 \<in> set (printed (doCleanup locked_env (directory (demo_args True True)) s0))) \<and>
            (os_remove (unlink_ok locked_env) q (fs s0) \<noteq> Inl OSError \<longrightarrow>
               \<not> exists_path (fs (doCleanup locked_env (directory (demo_args True True)) s0)) q)"
    by simp_all
  have reported: "(''Error removing temporary file: '' @ ''/o/example.com.uctmp'')
      \<in> set (printed (snd ?run))"
    using survivors registry kept by simp
  have first: "(''Error removing temporary file: '' @ ''/o/gone.com.uctmp'')
      \<in> set (printed (doCleanup locked_env ''/o'' gone_state))"
    using cleanup [rule_format, of "''/o/gone.com.uctmp''" gone_state] listed missing
    unfolding out by simp
  have second: "\<not> exists_path (fs (doCleanup locked_env ''/o'' gone_state)) ''/o/here.com.dttmp''"
    using cleanup [rule_format, of "''/o/here.com.dttmp''" gone_state] listed present
    unfolding out by simp
  show ?thesis
    using empty registry kept locked reported gone listed missing first present second
    by (intro conjI)
qed

text \<open>
  C6 as stated fails: the output directory holds a directory named \<^verbatim>\<open>a.uctmp\<close> and the
  monitored domain is \<^verbatim>\<open>a\<close>. urlcrazy is called, its output path is registered, and at
  exit \<^verbatim>\<open>os.remove\<close> raises OSError on the directory, which the handler prints: the
  registered path still exists after the cleanup.
\<close>

theorem registered_directory_survives_cleanup:
  "tempFiles dir_state = [] \<and>
   ''/o/a.uctmp'' \<in> set (tempFiles (snd (main demo_env (demo_args True False) dir_state))) \<and>
   exists_path (fs (snd (main demo_env (demo_args True False) dir_state))) ''/o/a.uctmp''"
  by code_simp

text \<open>
  C2 at a concrete input: the output directory holds \<^verbatim>\<open>old.com.uctmp\<close> from an earlier
  run. \<^verbatim>\<open>doCleanup\<close> iterates over the empty registry, not over the \<^verbatim>\<open>filedict\<close> it has
  just built, and leaves the state as it was. The whole run ends normally with the file
  still in the directory, and its row has reached the results file.
\<close>

theorem startup_cleanup_keeps_stale_file:
  "tempFiles stale_state = [] \<and>
   listdir ''/o'' (fs stale_state) = [''old.com.uctmp''] \<and>
   doCleanup demo_env ''/o'' stale_state = stale_state \<and>
   fst (main demo_env (demo_args True False) stale_state) = None \<and>
   listdir ''/o'' (fs (snd (main demo_env (demo_args True False) stale_state))) = [''old.com.uctmp'', ''r.csv''] \<and>
   map_of (fs (snd (main demo_env (demo_args True False) stale_state))) ''/o/r.csv'' =
     Some (RegFile [''Domain'', ''o1d.com'', ''exarnple.com''])"
  by code_simp

text \<open>
  C3 at concrete inputs: a dnstwist file whose third line is empty makes \<^verbatim>\<open>row[1]\<close>
  raise IndexError, one whose third line holds a NUL byte makes the reader raise
  \<^verbatim>\<open>csv.Error\<close>; \<^verbatim>\<open>parseOutput\<close> ends with the exception, the following row is never
  read and no results file is written; the whole run ends with exit status 1. The same
  two defects in a urlcrazy file do no harm: the NUL byte is stripped, the empty row is
  skipped and both rows reach the results file.
\<close>

theorem dnstwist_malformed_row_aborts:
  "parseOutput demo_env ''/o'' ''/c/knowndomains.csv'' ''/o/r.csv'' False True blank_row_state =
     (Some IndexError, blank_row_state) \<and>
   parseOutput demo_env ''/o'' ''/c/knowndomains.csv'' ''/o/r.csv'' False True nul_row_state =
     (Some CsvError, nul_row_state) \<and>
   \<not> exists_path (fs blank_row_state) ''/o/r.csv'' \<and>
   \<not> exists_path (fs nul_row_state) ''/o/r.csv'' \<and>
   parseOutput demo_env ''/o'' ''/c/knowndomains.csv'' ''/o/r.csv'' True False uc_rows_state =
     (None, uc_rows_state\<lparr>fs := fs uc_rows_state @
        [(''/o/r.csv'', RegFile [''Domain'', ''yb.com'', ''xb.com''])]\<rparr>) \<and>
   fst (main demo_env (demo_args False True) blank_row_state) = Some (Uncaught IndexError) \<and>
   exit_status (fst (main demo_env (demo_args False True) blank_row_state)) = 1 \<and>
   \<not> exists_path (fs (snd (main demo_env (demo_args False True) blank_row_state))) ''/o/r.csv''"
  by code_simp

text \<open>
  C5 at a concrete input: dnstwist exits with a nonzero status for \<^verbatim>\<open>a.com\<close> and works
  for \<^verbatim>\<open>b.com\<close>. The failure is printed and the loop over the domains goes on, but the
  output file opened before the call stays behind, empty and unregistered; in
  \<^verbatim>\<open>parseOutput\<close> the first \<^verbatim>\<open>next(reader)\<close> on it raises StopIteration, which nothing
  catches, and no results file is written. With \<^verbatim>\<open>b.com\<close> alone the run completes and
  writes the candidates of both generators.
\<close>

theorem dnstwist_failure_aborts_run:
  "fst (main demo_env (demo_args True True) (start_state (config_files [''a.com'', ''b.com'']))) =
     Some (Uncaught StopIteration) \<and>
   printed (snd (main demo_env (demo_args True True) (start_state (config_files [''a.com'', ''b.com''])))) =
     [''Unexpected error running dnstwist: <class 'subprocess.CalledProcessError'>''] \<and>
   \<not> exists_path (fs (snd (main demo_env (demo_args True True)
        (start_state (config_files [''a.com'', ''b.com'']))))) ''/o/r.csv'' \<and>
   fst (main demo_env (demo_args True True) (start_state (config_files [''b.com'']))) = None \<and>
   map_of (fs (snd (main demo_env (demo_args True True) (start_state (config_files [''b.com'']))))) ''/o/r.csv'' =
     Some (RegFile [''Domain'', ''exarnple.com'', ''xb.com''])"
  by code_simp

end
